theory Spec2Isabelle
  imports Main "HOL-Library.Word"
begin

unbundle bit_operations_syntax

section \<open>SocketCAN demo programs: frames, rendering and the three sessions\<close>

text \<open>
  The repository holds three C programs: the raw interface demo
  (\<^verbatim>\<open>socketcan-raw-demo.c\<close>), the broadcast manager interface demo
  (\<^verbatim>\<open>socketcan-bcm-demo.c\<close>) and the broadcast manager cyclic demo
  (\<^verbatim>\<open>socketcan-cyclic-demo.c\<close>).  Each \<^verbatim>\<open>main\<close> is embedded from the point where
  \<^verbatim>\<open>parse_args\<close>, \<^verbatim>\<open>init_signals\<close> and \<^verbatim>\<open>init_socket\<close> have returned, that is, with an
  open socket.  System calls are answered by an explicit environment, and a run yields
  the sequence of observable actions together with the way the run ends.
\<close>

subsection \<open>Data\<close>

type_synonym u8 = "8 word"
type_synonym u32 = "32 word"
type_synonym errno = int

text \<open>
  \<^verbatim>\<open>struct can_frame\<close> of the kernel header \<^verbatim>\<open>linux/can.h\<close>: the three fields the programs
  touch (the padding bytes between \<^verbatim>\<open>len\<close> and \<^verbatim>\<open>data\<close> are never read or written by
  them).  The payload buffer \<^verbatim>\<open>data\<close> is declared with 8 bytes (\<^verbatim>\<open>CAN_MAX_DLEN\<close>); the
  list is that buffer, and \<open>wf_frame\<close> is the invariant of the C type.
\<close>

record can_frame =
  can_id :: u32
  len :: u8
  data :: "u8 list"

definition CAN_MAX_DLEN :: nat where
  "CAN_MAX_DLEN = 8"

definition wf_frame :: "can_frame \<Rightarrow> bool" where
  "wf_frame f = (length (data f) = CAN_MAX_DLEN)"

text \<open>
  An access outside the payload buffer is undefined behaviour in C; the model stops
  with a fault at the first such access.
\<close>

datatype fault = Out_of_bounds

subsection \<open>The printf conversions used by the programs\<close>

definition hex_digit :: "nat \<Rightarrow> char" where
  "hex_digit d = ''0123456789ABCDEF'' ! d"

fun hex_of_nat :: "nat \<Rightarrow> string" where
  "hex_of_nat n =
     (if n < 16 then [hex_digit n] else hex_of_nat (n div 16) @ [hex_digit (n mod 16)])"

definition dec_digit :: "nat \<Rightarrow> char" where
  "dec_digit d = ''0123456789'' ! d"

fun dec_of_nat :: "nat \<Rightarrow> string" where
  "dec_of_nat n =
     (if n < 10 then [dec_digit n] else dec_of_nat (n div 10) @ [dec_digit (n mod 10)])"

definition zero_pad :: "nat \<Rightarrow> string \<Rightarrow> string" where
  "zero_pad w s = replicate (w - length s) (CHR ''0'') @ s"

text \<open>\<^verbatim>\<open>%03X\<close> of an unsigned int, \<^verbatim>\<open>%02X\<close> and \<^verbatim>\<open>%u\<close> of an unsigned char.\<close>

definition fmt_03X :: "u32 \<Rightarrow> string" where
  "fmt_03X x = zero_pad 3 (hex_of_nat (unat x))"

definition fmt_02X :: "u8 \<Rightarrow> string" where
  "fmt_02X x = zero_pad 2 (hex_of_nat (unat x))"

definition fmt_u :: "u8 \<Rightarrow> string" where
  "fmt_u x = dec_of_nat (unat x)"

definition nl :: string where
  "nl = [CHR 0x0A]"

subsection \<open>Frame codec: \<^verbatim>\<open>print_can_frame\<close> and the increment loop\<close>

lemma unat_succ_less:
  fixes i m :: "'a::len word"
  assumes "i < m"
  shows "unat (i + 1) = Suc (unat i)"
proof -
  have "m \<le> - 1" by simp
  with assms have "i \<noteq> - 1" by auto
  then have "1 + i \<noteq> 0" by (metis add.commute max_word_wrap)
  then show ?thesis by (simp add: unatSuc add.commute)
qed

text \<open>
  The \<^verbatim>\<open>for\<close> loop of \<^verbatim>\<open>print_can_frame\<close>: \<^verbatim>\<open>for (i = 0; i < len; i++) printf(" %02X", data[i])\<close>
  with \<^verbatim>\<open>unsigned char i\<close>.  The text written so far is the accumulator.
\<close>

function print_loop :: "u8 \<Rightarrow> can_frame \<Rightarrow> string \<Rightarrow> fault + string" where
  "print_loop i frame out =
     (if i < len frame
      then (if unat i < length (data frame)
            then print_loop (i + 1) frame (out @ '' '' @ fmt_02X (data frame ! unat i))
            else Inl Out_of_bounds)
      else Inr out)"
  by pat_completeness auto
termination
  by (relation "measure (\<lambda>(i, frame, out). unat (len frame) - unat i)")
     (auto simp: unat_succ_less word_less_nat_alt)

declare print_loop.simps [simp del]

definition print_can_frame :: "can_frame \<Rightarrow> fault + string" where
  "print_can_frame frame =
     print_loop 0 frame (fmt_03X (can_id frame) @ ''  ['' @ fmt_u (len frame) @ ''] '')"

text \<open>
  The increment loop of both echo programs:
  \<^verbatim>\<open>for (i = 0; i < frame.len; i++) { frame.data[i] += 1; }\<close> with \<^verbatim>\<open>unsigned char i\<close>;
  the addition is on \<^verbatim>\<open>unsigned char\<close> and wraps.
\<close>

function increment_loop :: "u8 \<Rightarrow> can_frame \<Rightarrow> fault + can_frame" where
  "increment_loop i frame =
     (if i < len frame
      then (if unat i < length (data frame)
            then increment_loop (i + 1)
                   (frame\<lparr>data := (data frame)[unat i := data frame ! unat i + 1]\<rparr>)
            else Inl Out_of_bounds)
      else Inr frame)"
  by pat_completeness auto
termination
  by (relation "measure (\<lambda>(i, frame). unat (len frame) - unat i)")
     (auto simp: unat_succ_less word_less_nat_alt)

declare increment_loop.simps [simp del]

definition increment_payload :: "can_frame \<Rightarrow> fault + can_frame" where
  "increment_payload frame = increment_loop 0 frame"

text \<open>The transform applied \<open>n\<close> times in a row, stopping at the first fault.\<close>

primrec increment_times :: "nat \<Rightarrow> can_frame \<Rightarrow> fault + can_frame" where
  "increment_times 0 frame = Inr frame"
| "increment_times (Suc n) frame =
     (case increment_payload frame of
        Inl e \<Rightarrow> Inl e
      | Inr frame' \<Rightarrow> increment_times n frame')"

subsection \<open>Patterns of rendered text\<close>

definition is_upper_hex :: "char \<Rightarrow> bool" where
  "is_upper_hex c = (c \<in> set ''0123456789ABCDEF'')"

definition is_dec :: "char \<Rightarrow> bool" where
  "is_dec c = (c \<in> set ''0123456789'')"

text \<open>Exactly \<open>n\<close> groups of a space and two uppercase hexadecimal digits, and nothing else.\<close>

fun byte_groups :: "nat \<Rightarrow> string \<Rightarrow> bool" where
  "byte_groups 0 s = (s = [])"
| "byte_groups (Suc n) s =
     (case s of
        sp # a # b # r \<Rightarrow> sp = CHR '' '' \<and> is_upper_hex a \<and> is_upper_hex b \<and> byte_groups n r
      | _ \<Rightarrow> False)"

text \<open>
  A recogniser for: three or more uppercase hexadecimal digits, two spaces, an opening
  bracket, the decimal number \<open>n\<close>, a closing bracket, the separator \<open>sep\<close>, then exactly
  \<open>n\<close> byte groups.
\<close>

definition render_pattern :: "string \<Rightarrow> nat \<Rightarrow> string \<Rightarrow> bool" where
  "render_pattern sep n s =
     (let h = takeWhile is_upper_hex s;
          r1 = dropWhile is_upper_hex s;
          r2 = drop 3 r1;
          d = takeWhile is_dec r2;
          r3 = dropWhile is_dec r2;
          k = Suc (length sep)
      in 3 \<le> length h \<and> take 3 r1 = ''  ['' \<and> d = dec_of_nat n \<and>
         take k r3 = '']'' @ sep \<and> byte_groups n (drop k r3))"

text \<open>
  The pattern in the words of the specification: after the closing bracket come the
  space-prefixed byte values directly.
\<close>

definition spec_render_pattern :: "nat \<Rightarrow> string \<Rightarrow> bool" where
  "spec_render_pattern n s = render_pattern [] n s"

text \<open>The pattern with the one space that the format string has after the closing bracket.\<close>

definition printed_render_pattern :: "nat \<Rightarrow> string \<Rightarrow> bool" where
  "printed_render_pattern n s = render_pattern '' '' n s"

subsection \<open>Environment, actions and outcomes\<close>

text \<open>
  A system call either fails (it returns -1 and sets \<^verbatim>\<open>errno\<close>) or succeeds; for a
  successful \<^verbatim>\<open>read\<close> the value is the content of the caller's buffer afterwards, for
  \<^verbatim>\<open>write\<close> and \<^verbatim>\<open>close\<close> it is not inspected.  An event answers one blocking call; its
  flag says whether the handler \<^verbatim>\<open>on_signal\<close> ran for SIGINT or SIGTERM since the last
  test of \<^verbatim>\<open>run\<close> and before the call returned.
\<close>

datatype 'b sysret = Success 'b | Failure errno

type_synonym 'b event = "bool \<times> 'b sysret"

record 'b env =
  early_signal :: bool
  calls :: "'b event list"
  close_result :: "unit sysret"

definition EINTR :: errno where
  "EINTR = 4"

definition EXIT_SUCCESS :: int where
  "EXIT_SUCCESS = 0"

definition EXIT_FAILURE :: int where
  "EXIT_FAILURE = 1"

definition SIGINT :: nat where
  "SIGINT = 2"

definition SIGTERM :: nat where
  "SIGTERM = 15"

text \<open>
  Observable actions.  \<open>Diag msg e\<close> is the line that glibc's \<^verbatim>\<open>error(status, e, msg)\<close> writes to
  the standard error stream: the program name, \<open>msg\<close> and the text of \<open>e\<close>.  With status 0
  \<^verbatim>\<open>error\<close> returns, with any other status it ends the process with that status.
\<close>

datatype 'b action =
    Read_call "'b sysret"
  | Write_call 'b "'b sysret"
  | Stdout string
  | Diag string errno
  | Sigprocmask_block "nat set"
  | Close_call "unit sysret"
  | Sigsuspend "nat set"

datatype 'b pending = Pending_read | Pending_write 'b | Pending_sigsuspend

text \<open>How one pass through a loop body ends.\<close>

datatype 'b ctl =
    Continue bool "'b event list"
  | Break
  | Blocked "'b pending"
  | Faulted

text \<open>How a loop ends, and how a process ends.\<close>

datatype 'b loop_end = Loop_left | Loop_blocked "'b pending" | Loop_faulted

datatype 'b outcome = Exited int | Blocked_forever "'b pending" | Undefined

subsection \<open>\<^verbatim>\<open>cleanup\<close> (the same function in all three programs)\<close>

definition sigemptyset :: "nat set" where
  "sigemptyset = {}"

definition sigaddset :: "nat set \<Rightarrow> nat \<Rightarrow> nat set" where
  "sigaddset sigs s = insert s sigs"

definition sigfillset :: "nat set" where
  "sigfillset = UNIV"

definition sigdelset :: "nat set \<Rightarrow> nat \<Rightarrow> nat set" where
  "sigdelset sigs s = sigs - {s}"

text \<open>The second component is the exit status when the process ends inside \<^verbatim>\<open>cleanup\<close>.\<close>

definition cleanup :: "unit sysret \<Rightarrow> 'b action list \<times> int option" where
  "cleanup rc =
     (let sigs = sigaddset (sigaddset sigemptyset SIGINT) SIGTERM
      in case rc of
           Failure e \<Rightarrow>
             ([Sigprocmask_block sigs, Close_call rc, Diag ''close'' e], Some EXIT_FAILURE)
         | Success _ \<Rightarrow> ([Sigprocmask_block sigs, Close_call rc], None))"

subsection \<open>Raw interface demo\<close>

definition MSGID_raw :: u32 where
  "MSGID_raw = 0x0CC"

text \<open>
  One pass through the body of \<^verbatim>\<open>while (run)\<close>, entered with \<^verbatim>\<open>run\<close> set.  \<open>Continue r es\<close>
  is the return to the loop condition (by \<^verbatim>\<open>continue\<close> or at the end of the body) with
  the value \<open>r\<close> of \<^verbatim>\<open>run\<close> and the events still to come.
\<close>

fun raw_body :: "can_frame event list \<Rightarrow> can_frame action list \<times> can_frame ctl" where
  "raw_body [] = ([], Blocked Pending_read)"
| "raw_body ((sg1, Failure e) # es) =
     (if e = EINTR
      then ([Read_call (Failure e)], Continue (\<not> sg1) es)
      else ([Read_call (Failure e), Diag ''read'' e], Break))"
| "raw_body ((sg1, Success frame) # es) =
     (case print_can_frame frame of
        Inl _ \<Rightarrow> ([Read_call (Success frame)], Faulted)
      | Inr rx \<Rightarrow>
          (let shown = [Read_call (Success frame), Stdout (''RX:  '' @ rx @ nl)]
           in case increment_payload (frame\<lparr>can_id := MSGID_raw\<rparr>) of
                Inl _ \<Rightarrow> (shown, Faulted)
              | Inr frame' \<Rightarrow>
                  (case es of
                     [] \<Rightarrow> (shown, Blocked (Pending_write frame'))
                   | (sg2, Failure e) # es' \<Rightarrow>
                       (if e = EINTR
                        then (shown @ [Write_call frame' (Failure e)],
                              Continue (\<not> sg1 \<and> \<not> sg2) es')
                        else (shown @ [Write_call frame' (Failure e), Diag ''write'' e], Break))
                   | (sg2, Success b) # es' \<Rightarrow>
                       (case print_can_frame frame' of
                          Inl _ \<Rightarrow> (shown @ [Write_call frame' (Success b)], Faulted)
                        | Inr tx \<Rightarrow>
                            (shown @ [Write_call frame' (Success b), Stdout (''TX:  '' @ tx @ nl)],
                             Continue (\<not> sg1 \<and> \<not> sg2) es')))))"

lemma raw_body_shorter:
  "raw_body es = (acts, Continue r es') \<Longrightarrow> length es' < length es"
  by (cases es rule: raw_body.cases)
     (auto simp: Let_def split: if_splits sum.splits list.splits sysret.splits)

function raw_loop :: "bool \<Rightarrow> can_frame event list \<Rightarrow> can_frame action list \<times> can_frame loop_end" where
  "raw_loop run es =
     (if \<not> run then ([], Loop_left)
      else case raw_body es of
             (acts, Continue run' es') \<Rightarrow>
               (case raw_loop run' es' of (t, fin) \<Rightarrow> (acts @ t, fin))
           | (acts, Break) \<Rightarrow> (acts, Loop_left)
           | (acts, Blocked p) \<Rightarrow> (acts, Loop_blocked p)
           | (acts, Faulted) \<Rightarrow> (acts, Loop_faulted))"
  by pat_completeness auto
termination
  by (relation "measure (\<lambda>(run, es). length es)") (auto dest: raw_body_shorter [OF sym])

declare raw_loop.simps [simp del]

definition raw_main :: "can_frame env \<Rightarrow> can_frame action list \<times> can_frame outcome" where
  "raw_main env =
     (case raw_loop (\<not> early_signal env) (calls env) of
        (t, Loop_left) \<Rightarrow>
          (case cleanup (close_result env) of
             (c, Some status) \<Rightarrow> (t @ c, Exited status)
           | (c, None) \<Rightarrow> (t @ c @ [Stdout (''Goodbye!'' @ nl)], Exited EXIT_SUCCESS))
      | (t, Loop_blocked p) \<Rightarrow> (t, Blocked_forever p)
      | (t, Loop_faulted) \<Rightarrow> (t, Undefined))"

subsection \<open>Broadcast manager messages\<close>

text \<open>
  \<^verbatim>\<open>struct bcm_msg_head\<close> of the kernel header \<^verbatim>\<open>linux/can/bcm.h\<close>; its field \<^verbatim>\<open>can_id\<close> is
  called \<open>msg_can_id\<close> here, apart from the field of the frame.  The opcodes and flags are
  the values of that header.  \<^verbatim>\<open>struct can_msg\<close> is declared in each \<^verbatim>\<open>main\<close>: a head and
  an array of frames (one frame in the interface demo, \<^verbatim>\<open>NFRAMES\<close> in the cyclic demo).
\<close>

record bcm_timeval =
  tv_sec :: int
  tv_usec :: int

record bcm_msg_head =
  opcode :: u32
  flags :: u32
  count :: u32
  ival1 :: bcm_timeval
  ival2 :: bcm_timeval
  msg_can_id :: u32
  nframes :: u32

record can_msg =
  msg_head :: bcm_msg_head
  frames :: "can_frame list"

definition TX_SETUP :: u32 where
  "TX_SETUP = 1"

definition TX_SEND :: u32 where
  "TX_SEND = 4"

definition RX_SETUP :: u32 where
  "RX_SETUP = 5"

definition SETTIMER :: u32 where
  "SETTIMER = 0x0001"

definition STARTTIMER :: u32 where
  "STARTTIMER = 0x0002"

text \<open>\<^verbatim>\<open>memset(&msg, 0, sizeof(msg))\<close> for a message with \<open>n\<close> frames.\<close>

definition zero_frame :: can_frame where
  "zero_frame = \<lparr>can_id = 0, len = 0, data = replicate CAN_MAX_DLEN 0\<rparr>"

definition zero_timeval :: bcm_timeval where
  "zero_timeval = \<lparr>tv_sec = 0, tv_usec = 0\<rparr>"

definition zero_msg :: "nat \<Rightarrow> can_msg" where
  "zero_msg n =
     \<lparr>msg_head = \<lparr>opcode = 0, flags = 0, count = 0, ival1 = zero_timeval,
                   ival2 = zero_timeval, msg_can_id = 0, nframes = 0\<rparr>,
      frames = replicate n zero_frame\<rparr>"

subsection \<open>Broadcast manager interface demo\<close>

definition MSGID_bcm :: u32 where
  "MSGID_bcm = 0x0BC"

text \<open>The message of the receive filter subscription, written before the loop.\<close>

definition rx_setup_msg :: can_msg where
  "rx_setup_msg =
     (let msg = zero_msg 1
      in msg\<lparr>msg_head := (msg_head msg)\<lparr>opcode := RX_SETUP, msg_can_id := 0x123\<rparr>\<rparr>)"

text \<open>
  One pass through the body of \<^verbatim>\<open>while (run)\<close>.  \<^verbatim>\<open>frame\<close> points to \<^verbatim>\<open>msg.frames[0]\<close>, so the
  changes of the frame are changes of the message that is written back; the head fields
  that the body does not assign keep what \<^verbatim>\<open>read\<close> left there.  A buffer without a first
  frame is outside the C type and ends the model with a fault.
\<close>

fun bcm_body :: "can_msg event list \<Rightarrow> can_msg action list \<times> can_msg ctl" where
  "bcm_body [] = ([], Blocked Pending_read)"
| "bcm_body ((sg1, Failure e) # es) =
     (if e = EINTR
      then ([Read_call (Failure e)], Continue (\<not> sg1) es)
      else ([Read_call (Failure e), Diag ''read'' e], Break))"
| "bcm_body ((sg1, Success msg) # es) =
     (case frames msg of
        [] \<Rightarrow> ([Read_call (Success msg)], Faulted)
      | frame # others \<Rightarrow>
          (case print_can_frame frame of
             Inl _ \<Rightarrow> ([Read_call (Success msg)], Faulted)
           | Inr rx \<Rightarrow>
               (let shown = [Read_call (Success msg), Stdout (''RX:  '' @ rx @ nl)]
                in case increment_payload (frame\<lparr>can_id := MSGID_bcm\<rparr>) of
                     Inl _ \<Rightarrow> (shown, Faulted)
                   | Inr frame' \<Rightarrow>
                       (let msg' = msg\<lparr>frames := frame' # others,
                                         msg_head := (msg_head msg)\<lparr>opcode := TX_SEND,
                                                        msg_can_id := 0, nframes := 1\<rparr>\<rparr>
                        in case es of
                             [] \<Rightarrow> (shown, Blocked (Pending_write msg'))
                           | (sg2, Failure e) # es' \<Rightarrow>
                               (if e = EINTR
                                then (shown @ [Write_call msg' (Failure e)],
                                      Continue (\<not> sg1 \<and> \<not> sg2) es')
                                else (shown @ [Write_call msg' (Failure e), Diag ''write'' e],
                                      Break))
                           | (sg2, Success b) # es' \<Rightarrow>
                               (case print_can_frame frame' of
                                  Inl _ \<Rightarrow> (shown @ [Write_call msg' (Success b)], Faulted)
                                | Inr tx \<Rightarrow>
                                    (shown @ [Write_call msg' (Success b),
                                              Stdout (''TX:  '' @ tx @ nl)],
                                     Continue (\<not> sg1 \<and> \<not> sg2) es'))))))"

lemma bcm_body_shorter:
  "bcm_body es = (acts, Continue r es') \<Longrightarrow> length es' < length es"
  by (cases es rule: bcm_body.cases)
     (auto simp: Let_def split: if_splits sum.splits list.splits sysret.splits)

function bcm_loop :: "bool \<Rightarrow> can_msg event list \<Rightarrow> can_msg action list \<times> can_msg loop_end" where
  "bcm_loop run es =
     (if \<not> run then ([], Loop_left)
      else case bcm_body es of
             (acts, Continue run' es') \<Rightarrow>
               (case bcm_loop run' es' of (t, fin) \<Rightarrow> (acts @ t, fin))
           | (acts, Break) \<Rightarrow> (acts, Loop_left)
           | (acts, Blocked p) \<Rightarrow> (acts, Loop_blocked p)
           | (acts, Faulted) \<Rightarrow> (acts, Loop_faulted))"
  by pat_completeness auto
termination
  by (relation "measure (\<lambda>(run, es). length es)") (auto dest: bcm_body_shorter [OF sym])

declare bcm_loop.simps [simp del]

text \<open>
  \<^verbatim>\<open>main\<close>: the first event answers the write of the subscription, which is fatal on any
  failure (\<^verbatim>\<open>error(EXIT_FAILURE, errno, "write")\<close>); the events after it answer the loop.
\<close>

definition bcm_main :: "can_msg env \<Rightarrow> can_msg action list \<times> can_msg outcome" where
  "bcm_main env =
     (case calls env of
        [] \<Rightarrow> ([], Blocked_forever (Pending_write rx_setup_msg))
      | (sg0, Failure e) # es \<Rightarrow>
          ([Write_call rx_setup_msg (Failure e), Diag ''write'' e], Exited EXIT_FAILURE)
      | (sg0, Success b) # es \<Rightarrow>
          (let setup = [Write_call rx_setup_msg (Success b)]
           in case bcm_loop (\<not> early_signal env \<and> \<not> sg0) es of
                (t, Loop_left) \<Rightarrow>
                  (case cleanup (close_result env) of
                     (c, Some status) \<Rightarrow> (setup @ t @ c, Exited status)
                   | (c, None) \<Rightarrow>
                       (setup @ t @ c @ [Stdout (''Goodbye!'' @ nl)], Exited EXIT_SUCCESS))
              | (t, Loop_blocked p) \<Rightarrow> (setup @ t, Blocked_forever p)
              | (t, Loop_faulted) \<Rightarrow> (setup @ t, Undefined)))"

subsection \<open>Broadcast manager cyclic demo\<close>

definition MSGID_cyclic :: u32 where
  "MSGID_cyclic = 0x0C0"

definition MSGLEN :: nat where
  "MSGLEN = 3"

definition NFRAMES :: nat where
  "NFRAMES = 4"

text \<open>\<^verbatim>\<open>memset(buf, c, n)\<close> on a buffer of at least \<open>n\<close> bytes.\<close>

definition memset :: "u8 list \<Rightarrow> u8 \<Rightarrow> nat \<Rightarrow> u8 list" where
  "memset buf c n = replicate n c @ drop n buf"

text \<open>
  The loop \<^verbatim>\<open>for (i = 0; i < NFRAMES; i++)\<close> that sets the example messages; \<^verbatim>\<open>i\<close> is an
  \<^verbatim>\<open>int\<close> that stays below \<^verbatim>\<open>NFRAMES\<close>, the size of the array.
\<close>

function set_example_messages :: "nat \<Rightarrow> can_msg \<Rightarrow> can_msg" where
  "set_example_messages i msg =
     (if i < NFRAMES
      then set_example_messages (i + 1)
             (msg\<lparr>frames := (frames msg)
                [i := (frames msg ! i)\<lparr>can_id := MSGID_cyclic + of_nat i,
                                        len := of_nat MSGLEN,
                                        data := memset (data (frames msg ! i)) (of_nat i) MSGLEN\<rparr>]\<rparr>)
      else msg)"
  by pat_completeness auto
termination
  by (relation "measure (\<lambda>(i, msg). NFRAMES - i)") auto

declare set_example_messages.simps [simp del]

text \<open>The cyclic transmission task, as \<^verbatim>\<open>main\<close> builds it before the write.\<close>

definition tx_setup_msg :: can_msg where
  "tx_setup_msg =
     (let msg = zero_msg NFRAMES;
          head = (msg_head msg)\<lparr>opcode := TX_SETUP, msg_can_id := 0,
                                 flags := SETTIMER OR STARTTIMER,
                                 nframes := of_nat NFRAMES, count := 0\<rparr>;
          head = head\<lparr>ival2 := \<lparr>tv_sec = 1, tv_usec = 200000\<rparr>\<rparr>
      in set_example_messages 0 (msg\<lparr>msg_head := head\<rparr>))"

definition registered_text :: "string \<Rightarrow> string" where
  "registered_text iface =
     ''Cyclic messages registed with SocketCAN!'' @ nl @
     ''Use a tool such as '' @ [CHR 0x22] @ ''candump '' @ iface @ [CHR 0x22] @
     '' to view the messages.'' @ nl @
     ''These messages will continue to transmit so long as the socket'' @ nl @
     ''used to communicate with SocketCAN remains open. In other words,'' @ nl @
     ''close this program with SIGINT or SIGTERM in order to gracefully'' @ nl @
     ''stop transmitting.'' @ nl"

text \<open>
  \<^verbatim>\<open>main\<close>: the first event answers the write of the task (fatal on any failure); a second
  event stands for the delivery of SIGINT or SIGTERM, which makes \<^verbatim>\<open>sigsuspend\<close> return
  (its return value is not inspected).  Without a second event the process stays suspended.
\<close>

definition cyclic_main :: "string \<Rightarrow> can_msg env \<Rightarrow> can_msg action list \<times> can_msg outcome" where
  "cyclic_main iface env =
     (case calls env of
        [] \<Rightarrow> ([], Blocked_forever (Pending_write tx_setup_msg))
      | (sg0, Failure e) # es \<Rightarrow>
          ([Write_call tx_setup_msg (Failure e), Diag ''write'' e], Exited EXIT_FAILURE)
      | (sg0, Success b) # es \<Rightarrow>
          (let registered = [Write_call tx_setup_msg (Success b), Stdout (registered_text iface)];
               sigs = sigdelset (sigdelset sigfillset SIGINT) SIGTERM
           in case es of
                [] \<Rightarrow> (registered, Blocked_forever Pending_sigsuspend)
              | delivered # _ \<Rightarrow>
                  (case cleanup (close_result env) of
                     (c, Some status) \<Rightarrow> (registered @ [Sigsuspend sigs] @ c, Exited status)
                   | (c, None) \<Rightarrow>
                       (registered @ [Sigsuspend sigs] @ c @ [Stdout (''Goodbye!'' @ nl)],
                        Exited EXIT_SUCCESS))))"

section \<open>Notions used in the statements\<close>

subsection \<open>Traces\<close>

text \<open>
  The payload after adding \<open>k\<close> to each of the first \<open>len\<close> bytes.
\<close>

definition bump :: "u8 \<Rightarrow> can_frame \<Rightarrow> u8 list" where
  "bump k f = map (\<lambda>j. if j < unat (len f) then data f ! j + k else data f ! j) [0..<length (data f)]"

text \<open>
  Kinds of actions: the release of the socket; a read or a write on the socket.
\<close>

definition is_close :: "'b action \<Rightarrow> bool" where
  "is_close a = (case a of Close_call _ \<Rightarrow> True | _ \<Rightarrow> False)"

definition is_io :: "'b action \<Rightarrow> bool" where
  "is_io a = (case a of Read_call _ \<Rightarrow> True | Write_call _ _ \<Rightarrow> True | _ \<Rightarrow> False)"

text \<open>
  A read or write that failed with an error other than the interruption indicator,
  as the name of the operation and the error number.
\<close>

definition io_failure :: "'b action \<Rightarrow> (string \<times> errno) option" where
  "io_failure a =
     (case a of
        Read_call (Failure e) \<Rightarrow> if e = EINTR then None else Some (''read'', e)
      | Write_call _ (Failure e) \<Rightarrow> if e = EINTR then None else Some (''write'', e)
      | _ \<Rightarrow> None)"

text \<open>
  A trace that is empty or begins with a read.
\<close>

definition starts_with_read :: "'b action list \<Rightarrow> bool" where
  "starts_with_read t = (case t of [] \<Rightarrow> True | Read_call _ # _ \<Rightarrow> True | _ \<Rightarrow> False)"

text \<open>
  The messages written in a trace, and the message of a write that never returned.
\<close>

definition writes_of :: "'b action list \<Rightarrow> 'b list" where
  "writes_of t = concat (map (\<lambda>a. case a of Write_call x _ \<Rightarrow> [x] | _ \<Rightarrow> []) t)"

definition pending_write :: "'b outcome \<Rightarrow> 'b list" where
  "pending_write out = (case out of Blocked_forever (Pending_write x) \<Rightarrow> [x] | _ \<Rightarrow> [])"

text \<open>
  A one-shot transmission command of the interface demo: opcode \<^verbatim>\<open>TX_SEND\<close>, frame count 1,
  identifier field of the head zero, and the embedded frame carrying \<^verbatim>\<open>MSGID\<close>.
\<close>

definition is_tx_send :: "can_msg \<Rightarrow> bool" where
  "is_tx_send m =
     (opcode (msg_head m) = TX_SEND \<and> nframes (msg_head m) = 1 \<and> msg_can_id (msg_head m) = 0 \<and>
      (case frames m of [] \<Rightarrow> False | f # _ \<Rightarrow> can_id f = MSGID_bcm))"

text \<open>
  The retry policy in the words of the specification: a write that was interrupted is
  followed at once by a write of the same buffer.
\<close>

fun eintr_write_retried :: "'b action list \<Rightarrow> bool" where
  "eintr_write_retried [] = True"
| "eintr_write_retried (Write_call x (Failure e) # rest) =
     ((if e = EINTR then (case rest of Write_call y _ # _ \<Rightarrow> y = x | _ \<Rightarrow> False) else True) \<and>
      eintr_write_retried rest)"
| "eintr_write_retried (a # rest) = eintr_write_retried rest"

subsection \<open>Example frames, messages and environments\<close>

definition frame_456 :: can_frame where
  "frame_456 = \<lparr>can_id = 0x456, len = 2, data = [0x10, 0x20, 0, 0, 0, 0, 0, 0]\<rparr>"

definition frame_0CC :: can_frame where
  "frame_0CC = \<lparr>can_id = 0x0CC, len = 2, data = [0x11, 0x21, 0, 0, 0, 0, 0, 0]\<rparr>"

definition frame_123 :: can_frame where
  "frame_123 = \<lparr>can_id = 0x123, len = 2, data = [0x10, 0x20, 0, 0, 0, 0, 0, 0]\<rparr>"

definition frame_0BC :: can_frame where
  "frame_0BC = \<lparr>can_id = 0x0BC, len = 2, data = [0x11, 0x21, 0, 0, 0, 0, 0, 0]\<rparr>"

definition frame_len9 :: can_frame where
  "frame_len9 = \<lparr>can_id = 0x456, len = 9, data = [1, 2, 3, 4, 5, 6, 7, 8]\<rparr>"

definition frame_wrap :: can_frame where
  "frame_wrap = \<lparr>can_id = 0x0CC, len = 3, data = [0xFF, 0x00, 0x7F, 0xAA, 0, 0, 0, 0]\<rparr>"

text \<open>
  A message as the broadcast manager delivers it for the filter (opcode 12 is
  \<^verbatim>\<open>RX_CHANGED\<close>), and the command the interface demo answers with.
\<close>

definition msg_123 :: can_msg where
  "msg_123 =
     \<lparr>msg_head = \<lparr>opcode = 12, flags = 0, count = 0, ival1 = zero_timeval,
                   ival2 = zero_timeval, msg_can_id = 0x123, nframes = 1\<rparr>,
      frames = [frame_123]\<rparr>"

definition msg_0BC :: can_msg where
  "msg_0BC =
     \<lparr>msg_head = \<lparr>opcode = TX_SEND, flags = 0, count = 0, ival1 = zero_timeval,
                   ival2 = zero_timeval, msg_can_id = 0, nframes = 1\<rparr>,
      frames = [frame_0BC]\<rparr>"

text \<open>
  Environments: a write interrupted without and with a shutdown signal, a read and a
  write that fail with error 5 (\<^verbatim>\<open>EIO\<close>), a close that fails, and a shutdown of the cyclic
  demo.
\<close>

definition raw_env_eintr :: "can_frame env" where
  "raw_env_eintr =
     \<lparr>early_signal = False,
      calls = [(False, Success frame_456), (False, Failure EINTR), (True, Failure EINTR)],
      close_result = Success ()\<rparr>"

definition bcm_env_eintr :: "can_msg env" where
  "bcm_env_eintr =
     \<lparr>early_signal = False,
      calls = [(False, Success rx_setup_msg), (False, Success msg_123), (True, Failure EINTR)],
      close_result = Success ()\<rparr>"

definition raw_env_read_fails :: "can_frame env" where
  "raw_env_read_fails =
     \<lparr>early_signal = False, calls = [(False, Failure 5)], close_result = Success ()\<rparr>"

definition bcm_env_write_fails :: "can_msg env" where
  "bcm_env_write_fails =
     \<lparr>early_signal = False,
      calls = [(False, Success rx_setup_msg), (False, Success msg_123), (False, Failure 5)],
      close_result = Success ()\<rparr>"

definition raw_env_close_fails :: "can_frame env" where
  "raw_env_close_fails = \<lparr>early_signal = True, calls = [], close_result = Failure 5\<rparr>"

definition cyclic_env_close_fails :: "can_msg env" where
  "cyclic_env_close_fails =
     \<lparr>early_signal = False,
      calls = [(False, Success tx_setup_msg), (True, Failure EINTR)],
      close_result = Failure 5\<rparr>"

definition cyclic_env_shutdown :: "can_msg env" where
  "cyclic_env_shutdown =
     \<lparr>early_signal = False,
      calls = [(False, Success tx_setup_msg), (True, Failure EINTR)],
      close_result = Success ()\<rparr>"

section \<open>The frame codec\<close>

subsection \<open>The two loops in and out of bounds\<close>

lemma print_loop_in_bounds:
  "unat (len f) \<le> length (data f) \<Longrightarrow> i \<le> len f \<Longrightarrow>
   print_loop i f out =
     Inr (out @ concat (map (\<lambda>b. '' '' @ fmt_02X b) (drop (unat i) (take (unat (len f)) (data f)))))"
proof (induction i f out rule: print_loop.induct)
  case (1 i frame out)
  show ?case
  proof (cases "i < len frame")
    case True
    then have lt: "unat i < unat (len frame)" by (simp add: word_less_nat_alt)
    with "1.prems" have inb: "unat i < length (data frame)" by simp
    have nxt: "unat (i + 1) = Suc (unat i)" using True by (rule unat_succ_less)
    have le: "i + 1 \<le> len frame" using True by (rule inc_le)
    have split: "drop (unat i) (take (unat (len frame)) (data frame)) =
        data frame ! unat i # drop (Suc (unat i)) (take (unat (len frame)) (data frame))"
      using lt inb by (simp add: Cons_nth_drop_Suc [symmetric])
    show ?thesis
      using "1.IH" [OF True inb "1.prems"(1) le] True inb
      by (subst print_loop.simps) (simp add: nxt split)
  next
    case False
    with "1.prems" have "i = len frame" by simp
    then show ?thesis
      by (subst print_loop.simps) simp
  qed
qed

lemma print_loop_out_of_bounds:
  "length (data f) < unat (len f) \<Longrightarrow> unat i \<le> length (data f) \<Longrightarrow>
   print_loop i f out = Inl Out_of_bounds"
proof (induction i f out rule: print_loop.induct)
  case (1 i frame out)
  from "1.prems" have lt: "i < len frame" by (simp add: word_less_nat_alt)
  have nxt: "unat (i + 1) = Suc (unat i)" using lt by (rule unat_succ_less)
  show ?case
  proof (cases "unat i < length (data frame)")
    case True
    then show ?thesis
      using "1.IH" [OF lt True "1.prems"(1)] lt
      by (subst print_loop.simps) (simp add: nxt)
  next
    case False
    then show ?thesis using lt by (subst print_loop.simps) simp
  qed
qed

lemma increment_loop_in_bounds:
  "unat (len f) \<le> length (data f) \<Longrightarrow>
   increment_loop i f =
     Inr (f\<lparr>data := map (\<lambda>j. if unat i \<le> j \<and> j < unat (len f) then data f ! j + 1 else data f ! j)
                        [0..<length (data f)]\<rparr>)"
proof (induction i f rule: increment_loop.induct)
  case (1 i frame)
  show ?case
  proof (cases "i < len frame")
    case True
    then have lt: "unat i < unat (len frame)" by (simp add: word_less_nat_alt)
    with "1.prems" have inb: "unat i < length (data frame)" by simp
    have nxt: "unat (i + 1) = Suc (unat i)" using True by (rule unat_succ_less)
    let ?frame' = "frame\<lparr>data := (data frame)[unat i := data frame ! unat i + 1]\<rparr>"
    have step: "increment_loop i frame = increment_loop (i + 1) ?frame'"
      using True inb by (subst increment_loop.simps) simp
    have ih: "increment_loop (i + 1) ?frame' =
        Inr (?frame'\<lparr>data := map (\<lambda>j. if unat (i + 1) \<le> j \<and> j < unat (len ?frame')
                                      then data ?frame' ! j + 1 else data ?frame' ! j)
                             [0..<length (data ?frame')]\<rparr>)"
      using "1.prems" by (intro "1.IH" [OF True inb]) simp
    have "map (\<lambda>j. if unat (i + 1) \<le> j \<and> j < unat (len ?frame')
                  then data ?frame' ! j + 1 else data ?frame' ! j) [0..<length (data ?frame')]
        = map (\<lambda>j. if unat i \<le> j \<and> j < unat (len frame) then data frame ! j + 1 else data frame ! j)
            [0..<length (data frame)]"
      using lt inb by (auto simp: nth_list_update nxt)
    then show ?thesis
      unfolding step ih by simp
  next
    case False
    then have "\<not> unat i < unat (len frame)" by (simp add: word_less_nat_alt)
    then have "map (\<lambda>j. if unat i \<le> j \<and> j < unat (len frame) then data frame ! j + 1 else data frame ! j)
           [0..<length (data frame)] = data frame"
      by (auto intro!: nth_equalityI)
    then show ?thesis using False
      by (subst increment_loop.simps) simp
  qed
qed

lemma increment_loop_out_of_bounds:
  "length (data f) < unat (len f) \<Longrightarrow> unat i \<le> length (data f) \<Longrightarrow>
   increment_loop i f = Inl Out_of_bounds"
proof (induction i f rule: increment_loop.induct)
  case (1 i frame)
  from "1.prems" have lt: "i < len frame" by (simp add: word_less_nat_alt)
  have nxt: "unat (i + 1) = Suc (unat i)" using lt by (rule unat_succ_less)
  show ?case
  proof (cases "unat i < length (data frame)")
    case True
    then show ?thesis
      using "1.IH" [OF lt True] "1.prems" lt
      by (subst increment_loop.simps) (simp add: nxt)
  next
    case False
    then show ?thesis using lt by (subst increment_loop.simps) simp
  qed
qed

lemma print_can_frame_in_bounds:
  "unat (len f) \<le> length (data f) \<Longrightarrow>
   print_can_frame f =
     Inr (fmt_03X (can_id f) @ ''  ['' @ fmt_u (len f) @ ''] '' @
          concat (map (\<lambda>b. '' '' @ fmt_02X b) (take (unat (len f)) (data f))))"
  by (simp add: print_can_frame_def print_loop_in_bounds)

lemma print_can_frame_out_of_bounds:
  "length (data f) < unat (len f) \<Longrightarrow> print_can_frame f = Inl Out_of_bounds"
  by (simp add: print_can_frame_def print_loop_out_of_bounds)

lemma increment_payload_in_bounds:
  "unat (len f) \<le> length (data f) \<Longrightarrow> increment_payload f = Inr (f\<lparr>data := bump 1 f\<rparr>)"
  by (simp add: increment_payload_def increment_loop_in_bounds bump_def)

lemma increment_payload_out_of_bounds:
  "length (data f) < unat (len f) \<Longrightarrow> increment_payload f = Inl Out_of_bounds"
  by (simp add: increment_payload_def increment_loop_out_of_bounds)

lemma increment_loop_can_id: "increment_loop i f = Inr g \<Longrightarrow> can_id g = can_id f"
proof (induction i f rule: increment_loop.induct)
  case (1 i frame)
  show ?case
  proof (cases "i < len frame \<and> unat i < length (data frame)")
    case True
    with "1.prems" have "increment_loop (i + 1)
        (frame\<lparr>data := (data frame)[unat i := data frame ! unat i + 1]\<rparr>) = Inr g"
      by (subst (asm) increment_loop.simps) simp
    with "1.IH" True show ?thesis by simp
  next
    case False
    with "1.prems" show ?thesis
      by (subst (asm) increment_loop.simps) (auto split: if_splits)
  qed
qed

lemma increment_payload_can_id: "increment_payload f = Inr g \<Longrightarrow> can_id g = can_id f"
  by (simp add: increment_payload_def increment_loop_can_id)

lemma increment_payload_set_id:
  "increment_payload (f\<lparr>can_id := c\<rparr>) = Inr g \<Longrightarrow> can_id g = c"
  by (drule increment_payload_can_id) simp

lemma bump_bump: "bump k (f\<lparr>data := bump 1 f\<rparr>) = bump (1 + k) f"
  by (auto simp: bump_def)

lemma length_bump: "length (bump k f) = length (data f)"
  by (simp add: bump_def)

lemma bump_0: "bump 0 f = data f"
  by (auto simp: bump_def intro!: nth_equalityI)

lemma increment_times_in_bounds:
  "unat (len f) \<le> length (data f) \<Longrightarrow> increment_times n f = Inr (f\<lparr>data := bump (of_nat n) f\<rparr>)"
proof (induction n arbitrary: f)
  case 0
  then show ?case by (simp add: bump_0)
next
  case (Suc n)
  have "unat (len (f\<lparr>data := bump 1 f\<rparr>)) \<le> length (data (f\<lparr>data := bump 1 f\<rparr>))"
    using Suc.prems by (simp add: length_bump)
  from Suc.IH [OF this] show ?case
    using Suc.prems by (simp add: increment_payload_in_bounds bump_bump)
qed

lemma increment_times_256:
  assumes "unat (len f) \<le> length (data f)"
  shows "increment_times 256 f = Inr f"
proof -
  have "(of_nat 256 :: u8) = 0" by simp
  with increment_times_in_bounds [OF assms, of 256] show ?thesis
    by (simp add: bump_0 del: of_nat_numeral)
qed

subsection \<open>Digits\<close>

declare hex_of_nat.simps [simp del] dec_of_nat.simps [simp del]

lemma hex_digits_upper: "\<forall>d\<in>set [0..<16]. is_upper_hex (hex_digit d)"
  by code_simp

lemma dec_digits_dec: "\<forall>d\<in>set [0..<10]. is_dec (dec_digit d)"
  by code_simp

lemma hex_digit_upper: "d < 16 \<Longrightarrow> is_upper_hex (hex_digit d)"
  using hex_digits_upper by simp

lemma dec_digit_dec: "d < 10 \<Longrightarrow> is_dec (dec_digit d)"
  using dec_digits_dec by simp

lemma hex_of_nat_upper: "c \<in> set (hex_of_nat n) \<Longrightarrow> is_upper_hex c"
proof (induction n rule: hex_of_nat.induct)
  case (1 n)
  then show ?case
    by (subst (asm) hex_of_nat.simps) (auto simp: hex_digit_upper split: if_splits)
qed

lemma dec_of_nat_dec: "c \<in> set (dec_of_nat n) \<Longrightarrow> is_dec c"
proof (induction n rule: dec_of_nat.induct)
  case (1 n)
  then show ?case
    by (subst (asm) dec_of_nat.simps) (auto simp: dec_digit_dec split: if_splits)
qed

lemma fmt_03X_upper: "c \<in> set (fmt_03X x) \<Longrightarrow> is_upper_hex c"
  by (auto simp: fmt_03X_def zero_pad_def is_upper_hex_def [of "CHR ''0''"] dest: hex_of_nat_upper)

lemma fmt_03X_length: "3 \<le> length (fmt_03X x)"
  by (simp add: fmt_03X_def zero_pad_def)

lemma fmt_02X_shape: "\<exists>a b. fmt_02X x = [a, b] \<and> is_upper_hex a \<and> is_upper_hex b"
proof -
  have lt: "unat x < 256" using unsigned_less [of x] by simp
  show ?thesis
  proof (cases "unat x < 16")
    case True
    then show ?thesis
      by (simp add: fmt_02X_def zero_pad_def hex_digit_upper is_upper_hex_def [of "CHR ''0''"]
            hex_of_nat.simps [of "unat x"])
  next
    case False
    moreover from lt have "unat x div 16 < 16" by simp
    ultimately show ?thesis
      by (simp add: fmt_02X_def zero_pad_def hex_digit_upper
            hex_of_nat.simps [of "unat x"] hex_of_nat.simps [of "unat x div 16"])
  qed
qed

lemma byte_groups_concat:
  "byte_groups (length bs) (concat (map (\<lambda>b. '' '' @ fmt_02X b) bs))"
proof (induction bs)
  case Nil
  then show ?case by simp
next
  case (Cons b bs)
  obtain x y where "fmt_02X b = [x, y]" "is_upper_hex x" "is_upper_hex y"
    using fmt_02X_shape by blast
  with Cons show ?case by simp
qed

lemma render_pattern_built:
  assumes h: "\<forall>c\<in>set H. is_upper_hex c" and hl: "3 \<le> length H"
    and g: "byte_groups n G"
  shows "render_pattern sep n (H @ ''  ['' @ dec_of_nat n @ '']'' @ sep @ G)"
proof -
  have nh: "\<not> is_upper_hex (CHR '' '')" by (simp add: is_upper_hex_def)
  have nd: "\<not> is_dec (CHR '']'')" by (simp add: is_dec_def)
  have d: "\<forall>c\<in>set (dec_of_nat n). is_dec c" by (simp add: dec_of_nat_dec)
  have t1: "takeWhile is_upper_hex (H @ ''  ['' @ dec_of_nat n @ '']'' @ sep @ G) = H"
    using h nh by (simp add: takeWhile_append2)
  have d1: "dropWhile is_upper_hex (H @ ''  ['' @ dec_of_nat n @ '']'' @ sep @ G)
      = ''  ['' @ dec_of_nat n @ '']'' @ sep @ G"
    using h nh by (simp add: dropWhile_append2)
  have t2: "takeWhile is_dec (dec_of_nat n @ '']'' @ sep @ G) = dec_of_nat n"
    using d nd by (simp add: takeWhile_append2)
  have d2: "dropWhile is_dec (dec_of_nat n @ '']'' @ sep @ G) = '']'' @ sep @ G"
    using d nd by (simp add: dropWhile_append2)
  show ?thesis
    unfolding render_pattern_def Let_def t1 d1
    using hl g by (simp add: t2 [simplified] d2 [simplified])
qed

lemma printed_pattern_holds:
  "printed_render_pattern (unat (len f))
     (fmt_03X (can_id f) @ ''  ['' @ fmt_u (len f) @ ''] '' @
      concat (map (\<lambda>b. '' '' @ fmt_02X b) (take (unat (len f)) (data f))))"
  if "unat (len f) \<le> length (data f)"
proof -
  have "byte_groups (length (take (unat (len f)) (data f)))
          (concat (map (\<lambda>b. '' '' @ fmt_02X b) (take (unat (len f)) (data f))))"
    by (rule byte_groups_concat)
  then have g: "byte_groups (unat (len f))
          (concat (map (\<lambda>b. '' '' @ fmt_02X b) (take (unat (len f)) (data f))))"
    using that by (simp add: min_absorb2)
  have "render_pattern '' '' (unat (len f))
          (fmt_03X (can_id f) @ ''  ['' @ dec_of_nat (unat (len f)) @ '']'' @ '' '' @
           concat (map (\<lambda>b. '' '' @ fmt_02X b) (take (unat (len f)) (data f))))"
    by (rule render_pattern_built) (use g in \<open>auto simp: fmt_03X_upper fmt_03X_length\<close>)
  then show ?thesis
    by (simp add: printed_render_pattern_def fmt_u_def)
qed

subsection \<open>The example frames\<close>

lemma fmt_examples:
  "fmt_03X 0x456 = ''456''" "fmt_03X 0x0CC = ''0CC''" "fmt_u 2 = ''2''"
  "fmt_02X 0x10 = ''10''" "fmt_02X 0x20 = ''20''" "fmt_02X 0x11 = ''11''" "fmt_02X 0x21 = ''21''"
  by code_simp+

lemma print_456:
  "print_can_frame \<lparr>can_id = 0x456, len = 2, data = [0x10, 0x20, b2, b3, b4, b5, b6, b7]\<rparr>
     = Inr ''456  [2]  10 20''"
  by (simp add: print_can_frame_in_bounds fmt_examples)

lemma print_0CC:
  "print_can_frame \<lparr>can_id = 0x0CC, len = 2, data = [0x11, 0x21, b2, b3, b4, b5, b6, b7]\<rparr>
     = Inr ''0CC  [2]  11 21''"
  by (simp add: print_can_frame_in_bounds fmt_examples)

lemma increment_456:
  "increment_payload \<lparr>can_id = MSGID_raw, len = 2, data = [0x10, 0x20, b2, b3, b4, b5, b6, b7]\<rparr>
     = Inr \<lparr>can_id = 0x0CC, len = 2, data = [0x11, 0x21, b2, b3, b4, b5, b6, b7]\<rparr>"
  by (simp add: increment_payload_in_bounds bump_def MSGID_raw_def upt_rec)

section \<open>The sessions\<close>

subsection \<open>\<^verbatim>\<open>cleanup\<close> and the signal sets\<close>

lemma cleanup_simps:
  "cleanup (Success u) = ([Sigprocmask_block {SIGINT, SIGTERM}, Close_call (Success u)], None)"
  "cleanup (Failure e) =
     ([Sigprocmask_block {SIGINT, SIGTERM}, Close_call (Failure e), Diag ''close'' e], Some EXIT_FAILURE)"
  by (auto simp: cleanup_def sigaddset_def sigemptyset_def)

lemma suspend_mask: "sigdelset (sigdelset sigfillset SIGINT) SIGTERM = - {SIGINT, SIGTERM}"
  by (auto simp: sigdelset_def sigfillset_def)

lemma is_close_simps [simp]:
  "is_close (Close_call r)" "\<not> is_close (Sigprocmask_block s)" "\<not> is_close (Stdout t)"
  "\<not> is_close (Diag m e)" "\<not> is_close (Write_call x w)" "\<not> is_close (Read_call w)"
  "\<not> is_close (Sigsuspend s)"
  by (simp_all add: is_close_def)

lemma is_io_simps [simp]:
  "is_io (Read_call w)" "is_io (Write_call x w)" "\<not> is_io (Stdout t)" "\<not> is_io (Diag m e)"
  "\<not> is_io (Sigprocmask_block s)" "\<not> is_io (Close_call r)" "\<not> is_io (Sigsuspend s)"
  by (simp_all add: is_io_def)

lemma writes_of_append: "writes_of (s @ t) = writes_of s @ writes_of t"
  by (simp add: writes_of_def)

subsection \<open>Raw interface demo\<close>

lemma raw_loop_stop: "raw_loop False es = ([], Loop_left)"
  by (subst raw_loop.simps) simp

lemma raw_loop_step:
  "raw_body es = (acts, c) \<Longrightarrow>
   raw_loop True es =
     (case c of
        Continue r es' \<Rightarrow> (acts @ fst (raw_loop r es'), snd (raw_loop r es'))
      | Break \<Rightarrow> (acts, Loop_left)
      | Blocked p \<Rightarrow> (acts, Loop_blocked p)
      | Faulted \<Rightarrow> (acts, Loop_faulted))"
  by (subst raw_loop.simps) (simp split: ctl.splits prod.splits)

lemma raw_body_no_close:
  "raw_body es = (acts, c) \<Longrightarrow> a \<in> set acts \<Longrightarrow> \<not> is_close a"
  by (cases es rule: raw_body.cases)
     (auto simp: Let_def is_close_def split: if_splits sum.splits list.splits sysret.splits)

lemma raw_body_starts_with_read:
  "raw_body es = (acts, c) \<Longrightarrow> starts_with_read (acts @ t) \<or> (acts = [] \<and> (\<exists>p. c = Blocked p))"
  by (cases es rule: raw_body.cases)
     (auto simp: Let_def starts_with_read_def split: if_splits sum.splits list.splits sysret.splits)

lemma raw_body_io_failure:
  "raw_body es = (acts, c) \<Longrightarrow> a \<in> set acts \<Longrightarrow> io_failure a = Some (opn, e) \<Longrightarrow>
   c = Break \<and> (\<exists>pre. acts = pre @ [a, Diag opn e])"
  by (cases es rule: raw_body.cases)
     (auto simp: Let_def io_failure_def split: if_splits sum.splits list.splits sysret.splits)

lemma raw_body_continue_no_failure:
  "raw_body es = (acts, Continue r es') \<Longrightarrow> a \<in> set acts \<Longrightarrow> io_failure a = None"
  by (cases es rule: raw_body.cases)
     (auto simp: Let_def io_failure_def split: if_splits sum.splits list.splits sysret.splits)

lemma raw_loop_no_close: "a \<in> set (fst (raw_loop run es)) \<Longrightarrow> \<not> is_close a"
proof (induction run es rule: raw_loop.induct)
  case (1 run es)
  show ?case
  proof (cases run)
    case False
    with "1.prems" show ?thesis by (simp add: raw_loop_stop)
  next
    case True
    obtain acts c where b: "raw_body es = (acts, c)" by (cases "raw_body es")
    show ?thesis
    proof (cases c)
      case (Continue r es')
      have "a \<in> set (fst (raw_loop r es')) \<Longrightarrow> \<not> is_close a"
        using "1.IH" [of acts c r es'] True b Continue by simp
      with "1.prems" raw_body_no_close [OF b] show ?thesis
        using True Continue by (auto simp: raw_loop_step [OF b])
    qed (use "1.prems" raw_body_no_close [OF b] True in \<open>auto simp: raw_loop_step [OF b]\<close>)
  qed
qed

lemma raw_loop_filter_close: "filter is_close (fst (raw_loop run es)) = []"
  by (simp add: filter_empty_conv raw_loop_no_close)

lemma raw_loop_starts_with_read: "starts_with_read (fst (raw_loop run es))"
proof (cases run)
  case False
  then show ?thesis by (simp add: raw_loop_stop starts_with_read_def)
next
  case True
  obtain acts c where b: "raw_body es = (acts, c)" by (cases "raw_body es")
  from raw_body_starts_with_read [OF b, of "[]"] raw_body_starts_with_read [OF b]
  show ?thesis using True
    by (cases c) (auto simp: raw_loop_step [OF b] starts_with_read_def)
qed

lemma raw_loop_io_failure:
  "a \<in> set (fst (raw_loop run es)) \<Longrightarrow> io_failure a = Some (opn, e) \<Longrightarrow>
   snd (raw_loop run es) = Loop_left \<and> (\<exists>pre. fst (raw_loop run es) = pre @ [a, Diag opn e])"
proof (induction run es rule: raw_loop.induct)
  case (1 run es)
  show ?case
  proof (cases run)
    case False
    with "1.prems" show ?thesis by (simp add: raw_loop_stop)
  next
    case True
    obtain acts c where b: "raw_body es = (acts, c)" by (cases "raw_body es")
    show ?thesis
    proof (cases c)
      case (Continue r es')
      have nf: "a \<notin> set acts"
        using raw_body_continue_no_failure [of es acts r es' a] b Continue "1.prems"(2) by auto
      with "1.prems" have mem: "a \<in> set (fst (raw_loop r es'))"
        using True Continue by (simp add: raw_loop_step [OF b])
      have "snd (raw_loop r es') = Loop_left \<and>
            (\<exists>pre. fst (raw_loop r es') = pre @ [a, Diag opn e])"
        using "1.IH" [of acts c r es'] True b Continue mem "1.prems"(2) by simp
      then obtain pre where "snd (raw_loop r es') = Loop_left"
        "fst (raw_loop r es') = pre @ [a, Diag opn e]" by blast
      then show ?thesis
        using True Continue by (simp add: raw_loop_step [OF b])
    next
      case Break
      with raw_body_io_failure [OF b _ "1.prems"(2)] "1.prems"(1) True
      show ?thesis by (simp add: raw_loop_step [OF b])
    next
      case (Blocked p)
      with raw_body_io_failure [OF b _ "1.prems"(2)] "1.prems"(1) True
      show ?thesis by (simp add: raw_loop_step [OF b])
    next
      case Faulted
      with raw_body_io_failure [OF b _ "1.prems"(2)] "1.prems"(1) True
      show ?thesis by (simp add: raw_loop_step [OF b])
    qed
  qed
qed

lemma raw_main_left:
  "snd (raw_loop (\<not> early_signal env) (calls env)) = Loop_left \<Longrightarrow>
   raw_main env =
     (case close_result env of
        Success u \<Rightarrow>
          (fst (raw_loop (\<not> early_signal env) (calls env)) @
             [Sigprocmask_block {SIGINT, SIGTERM}, Close_call (Success u), Stdout (''Goodbye!'' @ nl)],
           Exited EXIT_SUCCESS)
      | Failure e \<Rightarrow>
          (fst (raw_loop (\<not> early_signal env) (calls env)) @
             [Sigprocmask_block {SIGINT, SIGTERM}, Close_call (Failure e), Diag ''close'' e],
           Exited EXIT_FAILURE))"
  by (cases "raw_loop (\<not> early_signal env) (calls env)")
     (simp add: raw_main_def cleanup_simps split: sysret.splits)

lemma raw_main_not_left:
  "snd (raw_loop (\<not> early_signal env) (calls env)) \<noteq> Loop_left \<Longrightarrow>
   \<forall>st. snd (raw_main env) \<noteq> Exited st"
  by (cases "raw_loop (\<not> early_signal env) (calls env)")
     (auto simp: raw_main_def split: loop_end.splits)

lemma raw_main_success_iff:
  "snd (raw_main env) = Exited EXIT_SUCCESS \<longleftrightarrow>
     snd (raw_loop (\<not> early_signal env) (calls env)) = Loop_left \<and>
     (\<exists>u. close_result env = Success u)"
proof (cases "snd (raw_loop (\<not> early_signal env) (calls env)) = Loop_left")
  case True
  from raw_main_left [OF this] show ?thesis
    using True by (auto simp: EXIT_SUCCESS_def EXIT_FAILURE_def split: sysret.splits)
next
  case False
  from raw_main_not_left [OF this] show ?thesis
    using False by simp
qed

lemma raw_write_eintr:
  assumes "wf_frame f" and "unat (len f) \<le> 8"
  shows "\<exists>rx f'. print_can_frame f = Inr rx \<and>
           increment_payload (f\<lparr>can_id := MSGID_raw\<rparr>) = Inr f' \<and>
           raw_loop True ((sg1, Success f) # (sg2, Failure EINTR) # es) =
             ([Read_call (Success f), Stdout (''RX:  '' @ rx @ nl), Write_call f' (Failure EINTR)] @
                fst (raw_loop (\<not> sg1 \<and> \<not> sg2) es),
              snd (raw_loop (\<not> sg1 \<and> \<not> sg2) es))"
proof -
  from assms have inb: "unat (len f) \<le> length (data f)"
    by (simp add: wf_frame_def CAN_MAX_DLEN_def)
  then have inb': "unat (len (f\<lparr>can_id := MSGID_raw\<rparr>)) \<le> length (data (f\<lparr>can_id := MSGID_raw\<rparr>))"
    by simp
  note p = print_can_frame_in_bounds [OF inb]
  note i = increment_payload_in_bounds [OF inb']
  have "raw_body ((sg1, Success f) # (sg2, Failure EINTR) # es) =
      ([Read_call (Success f),
        Stdout (''RX:  '' @ projr (print_can_frame f) @ nl),
        Write_call (projr (increment_payload (f\<lparr>can_id := MSGID_raw\<rparr>))) (Failure EINTR)],
       Continue (\<not> sg1 \<and> \<not> sg2) es)"
    by (simp add: p i)
  from raw_loop_step [OF this] show ?thesis
    by (simp add: p i)
qed

lemma raw_env_eintr_run:
  "raw_main raw_env_eintr =
     ([Read_call (Success frame_456), Stdout (''RX:  456  [2]  10 20'' @ nl),
       Write_call frame_0CC (Failure EINTR), Read_call (Failure EINTR),
       Sigprocmask_block {SIGINT, SIGTERM}, Close_call (Success ()),
       Stdout (''Goodbye!'' @ nl)],
      Exited EXIT_SUCCESS)"
  by code_simp

subsection \<open>Broadcast manager interface demo\<close>

lemma bcm_loop_stop: "bcm_loop False es = ([], Loop_left)"
  by (subst bcm_loop.simps) simp

lemma bcm_loop_step:
  "bcm_body es = (acts, c) \<Longrightarrow>
   bcm_loop True es =
     (case c of
        Continue r es' \<Rightarrow> (acts @ fst (bcm_loop r es'), snd (bcm_loop r es'))
      | Break \<Rightarrow> (acts, Loop_left)
      | Blocked p \<Rightarrow> (acts, Loop_blocked p)
      | Faulted \<Rightarrow> (acts, Loop_faulted))"
  by (subst bcm_loop.simps) (simp split: ctl.splits prod.splits)

lemma bcm_body_no_close:
  "bcm_body es = (acts, c) \<Longrightarrow> a \<in> set acts \<Longrightarrow> \<not> is_close a"
  by (cases es rule: bcm_body.cases)
     (auto simp: Let_def is_close_def split: if_splits sum.splits list.splits sysret.splits)

lemma bcm_body_starts_with_read:
  "bcm_body es = (acts, c) \<Longrightarrow> starts_with_read (acts @ t) \<or> (acts = [] \<and> (\<exists>p. c = Blocked p))"
  by (cases es rule: bcm_body.cases)
     (auto simp: Let_def starts_with_read_def split: if_splits sum.splits list.splits sysret.splits)

lemma bcm_body_io_failure:
  "bcm_body es = (acts, c) \<Longrightarrow> a \<in> set acts \<Longrightarrow> io_failure a = Some (opn, e) \<Longrightarrow>
   c = Break \<and> (\<exists>pre. acts = pre @ [a, Diag opn e])"
  by (cases es rule: bcm_body.cases)
     (auto simp: Let_def io_failure_def split: if_splits sum.splits list.splits sysret.splits)

lemma bcm_body_continue_no_failure:
  "bcm_body es = (acts, Continue r es') \<Longrightarrow> a \<in> set acts \<Longrightarrow> io_failure a = None"
  by (cases es rule: bcm_body.cases)
     (auto simp: Let_def io_failure_def split: if_splits sum.splits list.splits sysret.splits)

lemma bcm_body_writes:
  "bcm_body es = (acts, c) \<Longrightarrow>
   list_all is_tx_send (writes_of acts) \<and>
   (case c of Blocked (Pending_write m) \<Rightarrow> is_tx_send m | _ \<Rightarrow> True)"
  by (cases es rule: bcm_body.cases)
     (auto simp: Let_def writes_of_def is_tx_send_def increment_payload_set_id
           split: if_splits sum.splits list.splits sysret.splits)

lemma bcm_loop_no_close: "a \<in> set (fst (bcm_loop run es)) \<Longrightarrow> \<not> is_close a"
proof (induction run es rule: bcm_loop.induct)
  case (1 run es)
  show ?case
  proof (cases run)
    case False
    with "1.prems" show ?thesis by (simp add: bcm_loop_stop)
  next
    case True
    obtain acts c where b: "bcm_body es = (acts, c)" by (cases "bcm_body es")
    show ?thesis
    proof (cases c)
      case (Continue r es')
      have "a \<in> set (fst (bcm_loop r es')) \<Longrightarrow> \<not> is_close a"
        using "1.IH" [of acts c r es'] True b Continue by simp
      with "1.prems" bcm_body_no_close [OF b] show ?thesis
        using True Continue by (auto simp: bcm_loop_step [OF b])
    qed (use "1.prems" bcm_body_no_close [OF b] True in \<open>auto simp: bcm_loop_step [OF b]\<close>)
  qed
qed

lemma bcm_loop_filter_close: "filter is_close (fst (bcm_loop run es)) = []"
  by (simp add: filter_empty_conv bcm_loop_no_close)

lemma bcm_loop_starts_with_read: "starts_with_read (fst (bcm_loop run es))"
proof (cases run)
  case False
  then show ?thesis by (simp add: bcm_loop_stop starts_with_read_def)
next
  case True
  obtain acts c where b: "bcm_body es = (acts, c)" by (cases "bcm_body es")
  from bcm_body_starts_with_read [OF b, of "[]"] bcm_body_starts_with_read [OF b]
  show ?thesis using True
    by (cases c) (auto simp: bcm_loop_step [OF b] starts_with_read_def)
qed

lemma bcm_loop_io_failure:
  "a \<in> set (fst (bcm_loop run es)) \<Longrightarrow> io_failure a = Some (opn, e) \<Longrightarrow>
   snd (bcm_loop run es) = Loop_left \<and> (\<exists>pre. fst (bcm_loop run es) = pre @ [a, Diag opn e])"
proof (induction run es rule: bcm_loop.induct)
  case (1 run es)
  show ?case
  proof (cases run)
    case False
    with "1.prems" show ?thesis by (simp add: bcm_loop_stop)
  next
    case True
    obtain acts c where b: "bcm_body es = (acts, c)" by (cases "bcm_body es")
    show ?thesis
    proof (cases c)
      case (Continue r es')
      have nf: "a \<notin> set acts"
        using bcm_body_continue_no_failure [of es acts r es' a] b Continue "1.prems"(2) by auto
      with "1.prems" have mem: "a \<in> set (fst (bcm_loop r es'))"
        using True Continue by (simp add: bcm_loop_step [OF b])
      have "snd (bcm_loop r es') = Loop_left \<and>
            (\<exists>pre. fst (bcm_loop r es') = pre @ [a, Diag opn e])"
        using "1.IH" [of acts c r es'] True b Continue mem "1.prems"(2) by simp
      then obtain pre where "snd (bcm_loop r es') = Loop_left"
        "fst (bcm_loop r es') = pre @ [a, Diag opn e]" by blast
      then show ?thesis
        using True Continue by (simp add: bcm_loop_step [OF b])
    next
      case Break
      with bcm_body_io_failure [OF b _ "1.prems"(2)] "1.prems"(1) True
      show ?thesis by (simp add: bcm_loop_step [OF b])
    next
      case (Blocked p)
      with bcm_body_io_failure [OF b _ "1.prems"(2)] "1.prems"(1) True
      show ?thesis by (simp add: bcm_loop_step [OF b])
    next
      case Faulted
      with bcm_body_io_failure [OF b _ "1.prems"(2)] "1.prems"(1) True
      show ?thesis by (simp add: bcm_loop_step [OF b])
    qed
  qed
qed

lemma bcm_loop_writes:
  "list_all is_tx_send (writes_of (fst (bcm_loop run es))) \<and>
   (case snd (bcm_loop run es) of Loop_blocked (Pending_write m) \<Rightarrow> is_tx_send m | _ \<Rightarrow> True)"
proof (induction run es rule: bcm_loop.induct)
  case (1 run es)
  show ?case
  proof (cases run)
    case False
    then show ?thesis by (simp add: bcm_loop_stop writes_of_def)
  next
    case True
    obtain acts c where b: "bcm_body es = (acts, c)" by (cases "bcm_body es")
    note w = bcm_body_writes [OF b]
    show ?thesis
    proof (cases c)
      case (Continue r es')
      have "list_all is_tx_send (writes_of (fst (bcm_loop r es'))) \<and>
        (case snd (bcm_loop r es') of Loop_blocked (Pending_write m) \<Rightarrow> is_tx_send m | _ \<Rightarrow> True)"
        using "1.IH" [of acts c r es'] True b Continue by simp
      with w show ?thesis
        using True Continue by (simp add: bcm_loop_step [OF b] writes_of_append)
    qed (use w True in \<open>auto simp: bcm_loop_step [OF b]\<close>)
  qed
qed

lemma bcm_main_left:
  "calls env = (sg0, Success b) # es \<Longrightarrow>
   snd (bcm_loop (\<not> early_signal env \<and> \<not> sg0) es) = Loop_left \<Longrightarrow>
   bcm_main env =
     (case close_result env of
        Success u \<Rightarrow>
          (Write_call rx_setup_msg (Success b) # fst (bcm_loop (\<not> early_signal env \<and> \<not> sg0) es) @
             [Sigprocmask_block {SIGINT, SIGTERM}, Close_call (Success u), Stdout (''Goodbye!'' @ nl)],
           Exited EXIT_SUCCESS)
      | Failure e \<Rightarrow>
          (Write_call rx_setup_msg (Success b) # fst (bcm_loop (\<not> early_signal env \<and> \<not> sg0) es) @
             [Sigprocmask_block {SIGINT, SIGTERM}, Close_call (Failure e), Diag ''close'' e],
           Exited EXIT_FAILURE))"
  by (cases "bcm_loop (\<not> early_signal env \<and> \<not> sg0) es")
     (simp add: bcm_main_def cleanup_simps split: sysret.splits)

lemma bcm_main_success_iff:
  "snd (bcm_main env) = Exited EXIT_SUCCESS \<longleftrightarrow>
     (\<exists>sg0 b es. calls env = (sg0, Success b) # es \<and>
        snd (bcm_loop (\<not> early_signal env \<and> \<not> sg0) es) = Loop_left) \<and>
     (\<exists>u. close_result env = Success u)"
proof (cases "calls env")
  case Nil
  then show ?thesis by (simp add: bcm_main_def)
next
  case (Cons ev es)
  obtain sg0 r where ev: "ev = (sg0, r)" by (cases ev)
  show ?thesis
  proof (cases r)
    case (Failure e)
    with Cons ev show ?thesis
      by (simp add: bcm_main_def EXIT_SUCCESS_def EXIT_FAILURE_def)
  next
    case (Success b)
    show ?thesis
    proof (cases "snd (bcm_loop (\<not> early_signal env \<and> \<not> sg0) es) = Loop_left")
      case True
      from bcm_main_left [of env sg0 b es] Cons ev Success True show ?thesis
        by (auto simp: EXIT_SUCCESS_def EXIT_FAILURE_def split: sysret.splits)
    next
      case False
      with Cons ev Success show ?thesis
        by (cases "bcm_loop (\<not> early_signal env \<and> \<not> sg0) es")
           (auto simp: bcm_main_def split: loop_end.splits)
    qed
  qed
qed

lemma bcm_write_eintr:
  assumes "frames msg = f # others" and "wf_frame f" and "unat (len f) \<le> 8"
  shows "\<exists>rx f'. print_can_frame f = Inr rx \<and>
           increment_payload (f\<lparr>can_id := MSGID_bcm\<rparr>) = Inr f' \<and>
           bcm_loop True ((sg1, Success msg) # (sg2, Failure EINTR) # es) =
             ([Read_call (Success msg), Stdout (''RX:  '' @ rx @ nl),
               Write_call (msg\<lparr>frames := f' # others,
                               msg_head := (msg_head msg)\<lparr>opcode := TX_SEND, msg_can_id := 0,
                                                           nframes := 1\<rparr>\<rparr>) (Failure EINTR)] @
                fst (bcm_loop (\<not> sg1 \<and> \<not> sg2) es),
              snd (bcm_loop (\<not> sg1 \<and> \<not> sg2) es))"
proof -
  from assms have inb: "unat (len f) \<le> length (data f)"
    by (simp add: wf_frame_def CAN_MAX_DLEN_def)
  then have inb': "unat (len (f\<lparr>can_id := MSGID_bcm\<rparr>)) \<le> length (data (f\<lparr>can_id := MSGID_bcm\<rparr>))"
    by simp
  note p = print_can_frame_in_bounds [OF inb]
  note i = increment_payload_in_bounds [OF inb']
  have "bcm_body ((sg1, Success msg) # (sg2, Failure EINTR) # es) =
      ([Read_call (Success msg),
        Stdout (''RX:  '' @ projr (print_can_frame f) @ nl),
        Write_call (msg\<lparr>frames := projr (increment_payload (f\<lparr>can_id := MSGID_bcm\<rparr>)) # others,
                        msg_head := (msg_head msg)\<lparr>opcode := TX_SEND, msg_can_id := 0,
                                                    nframes := 1\<rparr>\<rparr>) (Failure EINTR)],
       Continue (\<not> sg1 \<and> \<not> sg2) es)"
    using assms(1) by (simp add: p i)
  from bcm_loop_step [OF this] show ?thesis
    by (simp add: p i)
qed

lemma bcm_env_eintr_run:
  "bcm_main bcm_env_eintr =
     ([Write_call rx_setup_msg (Success rx_setup_msg),
       Read_call (Success msg_123), Stdout (''RX:  123  [2]  10 20'' @ nl),
       Write_call msg_0BC (Failure EINTR),
       Sigprocmask_block {SIGINT, SIGTERM}, Close_call (Success ()),
       Stdout (''Goodbye!'' @ nl)],
      Exited EXIT_SUCCESS)"
  by code_simp

lemma rx_setup_msg_value:
  "rx_setup_msg =
     \<lparr>msg_head = \<lparr>opcode = RX_SETUP, flags = 0, count = 0,
                   ival1 = \<lparr>tv_sec = 0, tv_usec = 0\<rparr>, ival2 = \<lparr>tv_sec = 0, tv_usec = 0\<rparr>,
                   msg_can_id = 0x123, nframes = 0\<rparr>,
      frames = [\<lparr>can_id = 0, len = 0, data = [0, 0, 0, 0, 0, 0, 0, 0]\<rparr>]\<rparr>"
  by (simp add: rx_setup_msg_def zero_msg_def zero_frame_def zero_timeval_def CAN_MAX_DLEN_def
        Let_def numeral_eq_Suc)

subsection \<open>Broadcast manager cyclic demo\<close>

lemma tx_setup_msg_value:
  "tx_setup_msg =
     \<lparr>msg_head = \<lparr>opcode = TX_SETUP, flags = SETTIMER OR STARTTIMER, count = 0,
                   ival1 = \<lparr>tv_sec = 0, tv_usec = 0\<rparr>,
                   ival2 = \<lparr>tv_sec = 1, tv_usec = 200000\<rparr>,
                   msg_can_id = 0, nframes = 4\<rparr>,
      frames = [\<lparr>can_id = 0x0C0, len = 3, data = [0, 0, 0, 0, 0, 0, 0, 0]\<rparr>,
                \<lparr>can_id = 0x0C1, len = 3, data = [1, 1, 1, 0, 0, 0, 0, 0]\<rparr>,
                \<lparr>can_id = 0x0C2, len = 3, data = [2, 2, 2, 0, 0, 0, 0, 0]\<rparr>,
                \<lparr>can_id = 0x0C3, len = 3, data = [3, 3, 3, 0, 0, 0, 0, 0]\<rparr>]\<rparr>"
  by code_simp

section \<open>The claims\<close>

subsection \<open>C1: a write that is interrupted\<close>

text \<open>
  Claim C1, as amended.  In the raw session and in the filtered echo session, when the
  write of the transformed frame fails with \<^verbatim>\<open>EINTR\<close>, the pass through the loop body ends
  there by \<^verbatim>\<open>continue\<close>: no diagnostic and no TX line are produced and the loop is not
  left by \<^verbatim>\<open>break\<close>.  The write is not issued again.  Control returns to the test of
  \<^verbatim>\<open>run\<close>; the rest of the run is the loop from that test on, so it is empty (when the
  handler has cleared \<^verbatim>\<open>run\<close> the session goes on to \<^verbatim>\<open>cleanup\<close>) or begins with a new read.
\<close>

theorem interrupted_write_ends_pass:
  assumes "wf_frame f" and "unat (len f) \<le> 8" and "frames msg = f # others"
  shows "\<exists>rx f_raw f_bcm.
           print_can_frame f = Inr rx \<and>
           increment_payload (f\<lparr>can_id := MSGID_raw\<rparr>) = Inr f_raw \<and>
           increment_payload (f\<lparr>can_id := MSGID_bcm\<rparr>) = Inr f_bcm \<and>
           raw_loop True ((sg1, Success f) # (sg2, Failure EINTR) # es) =
             ([Read_call (Success f), Stdout (''RX:  '' @ rx @ nl),
               Write_call f_raw (Failure EINTR)] @
                fst (raw_loop (\<not> sg1 \<and> \<not> sg2) es),
              snd (raw_loop (\<not> sg1 \<and> \<not> sg2) es)) \<and>
           starts_with_read (fst (raw_loop (\<not> sg1 \<and> \<not> sg2) es)) \<and>
           raw_loop False es = ([], Loop_left) \<and>
           bcm_loop True ((sg1, Success msg) # (sg2, Failure EINTR) # es') =
             ([Read_call (Success msg), Stdout (''RX:  '' @ rx @ nl),
               Write_call (msg\<lparr>frames := f_bcm # others,
                               msg_head := (msg_head msg)\<lparr>opcode := TX_SEND, msg_can_id := 0,
                                                           nframes := 1\<rparr>\<rparr>) (Failure EINTR)] @
                fst (bcm_loop (\<not> sg1 \<and> \<not> sg2) es'),
              snd (bcm_loop (\<not> sg1 \<and> \<not> sg2) es')) \<and>
           starts_with_read (fst (bcm_loop (\<not> sg1 \<and> \<not> sg2) es')) \<and>
           bcm_loop False es' = ([], Loop_left)"
proof -
  from raw_write_eintr [OF assms(1,2), of sg1 sg2 es]
  obtain rx f_raw where r: "print_can_frame f = Inr rx"
    "increment_payload (f\<lparr>can_id := MSGID_raw\<rparr>) = Inr f_raw"
    "raw_loop True ((sg1, Success f) # (sg2, Failure EINTR) # es) =
       ([Read_call (Success f), Stdout (''RX:  '' @ rx @ nl), Write_call f_raw (Failure EINTR)] @
          fst (raw_loop (\<not> sg1 \<and> \<not> sg2) es),
        snd (raw_loop (\<not> sg1 \<and> \<not> sg2) es))"
    by blast
  from bcm_write_eintr [OF assms(3,1,2), of sg1 sg2 es'] r(1)
  obtain f_bcm where b: "increment_payload (f\<lparr>can_id := MSGID_bcm\<rparr>) = Inr f_bcm"
    "bcm_loop True ((sg1, Success msg) # (sg2, Failure EINTR) # es') =
       ([Read_call (Success msg), Stdout (''RX:  '' @ rx @ nl),
         Write_call (msg\<lparr>frames := f_bcm # others,
                         msg_head := (msg_head msg)\<lparr>opcode := TX_SEND, msg_can_id := 0,
                                                     nframes := 1\<rparr>\<rparr>) (Failure EINTR)] @
          fst (bcm_loop (\<not> sg1 \<and> \<not> sg2) es'),
        snd (bcm_loop (\<not> sg1 \<and> \<not> sg2) es'))"
    by auto
  show ?thesis
    using r b raw_loop_starts_with_read [of "\<not> sg1 \<and> \<not> sg2" es]
      bcm_loop_starts_with_read [of "\<not> sg1 \<and> \<not> sg2" es']
      raw_loop_stop [of es] bcm_loop_stop [of es']
    by blast
qed

text \<open>
  An instance: the frame 0x123 with payload 0x10, 0x20 is read, and the write is
  interrupted by the shutdown signal.
\<close>

theorem interrupted_write_ends_pass_witness:
  "wf_frame frame_123 \<and> unat (len frame_123) \<le> 8 \<and> frames msg_123 = [frame_123] \<and>
   (\<exists>rx f_raw f_bcm.
      print_can_frame frame_123 = Inr rx \<and>
      increment_payload (frame_123\<lparr>can_id := MSGID_raw\<rparr>) = Inr f_raw \<and>
      increment_payload (frame_123\<lparr>can_id := MSGID_bcm\<rparr>) = Inr f_bcm \<and>
      raw_loop True [(False, Success frame_123), (True, Failure EINTR)] =
        ([Read_call (Success frame_123), Stdout (''RX:  '' @ rx @ nl),
          Write_call f_raw (Failure EINTR)],
         Loop_left) \<and>
      bcm_loop True [(False, Success msg_123), (True, Failure EINTR)] =
        ([Read_call (Success msg_123), Stdout (''RX:  '' @ rx @ nl),
          Write_call (msg_123\<lparr>frames := [f_bcm],
                         msg_head := (msg_head msg_123)\<lparr>opcode := TX_SEND, msg_can_id := 0,
                                                     nframes := 1\<rparr>\<rparr>) (Failure EINTR)],
         Loop_left))"
proof -
  have h1: "wf_frame frame_123" by (simp add: wf_frame_def CAN_MAX_DLEN_def frame_123_def)
  have h2: "unat (len frame_123) \<le> 8" by (simp add: frame_123_def)
  have h3: "frames msg_123 = frame_123 # []" by (simp add: msg_123_def)
  from interrupted_write_ends_pass [OF h1 h2 h3, where ?sg1.0 = False and ?sg2.0 = True
      and es = "[]" and es' = "[]"] h1 h2 h3
  show ?thesis
    by (clarsimp simp: raw_loop_stop bcm_loop_stop)
qed

text \<open>
  Claim C1 as stated fails.  In the raw run below the write of the transformed frame is
  interrupted while \<^verbatim>\<open>run\<close> stays set; the next call is a read, and the frame is never
  written again.  In the filtered echo run the write is interrupted by the shutdown
  signal and the session closes without writing the command again.
\<close>

theorem interrupted_write_counterexample:
  "fst (raw_main raw_env_eintr) =
     [Read_call (Success frame_456), Stdout (''RX:  456  [2]  10 20'' @ nl),
      Write_call frame_0CC (Failure EINTR), Read_call (Failure EINTR),
      Sigprocmask_block {SIGINT, SIGTERM}, Close_call (Success ()),
      Stdout (''Goodbye!'' @ nl)] \<and>
   \<not> eintr_write_retried (fst (raw_main raw_env_eintr)) \<and>
   fst (bcm_main bcm_env_eintr) =
     [Write_call rx_setup_msg (Success rx_setup_msg),
      Read_call (Success msg_123), Stdout (''RX:  123  [2]  10 20'' @ nl),
      Write_call msg_0BC (Failure EINTR),
      Sigprocmask_block {SIGINT, SIGTERM}, Close_call (Success ()),
      Stdout (''Goodbye!'' @ nl)] \<and>
   \<not> eintr_write_retried (fst (bcm_main bcm_env_eintr))"
  by (simp add: raw_env_eintr_run bcm_env_eintr_run)

subsection \<open>C2: a read or write that fails\<close>

text \<open>
  Claim C2, as amended.  In a raw or filtered echo session, when a read or write in the
  loop fails with an error other than \<^verbatim>\<open>EINTR\<close>, a diagnostic with the name of the
  operation and the error number is produced, the loop is left, and \<^verbatim>\<open>cleanup\<close> follows at
  once; the process then ends with the success status when the socket is closed
  successfully, and with the failure status (after the diagnostic of \<^verbatim>\<open>close\<close>) when the
  close fails.  A process ends with the success status exactly when its loop was left,
  by the shutdown flag or by such an error, and the close succeeded.
\<close>

theorem io_failure_leaves_loop_and_closes:
  "(a \<in> set (fst (raw_loop (\<not> early_signal env) (calls env))) \<and> io_failure a = Some (opn, e) \<longrightarrow>
      (\<exists>pre. raw_main env =
         (case close_result env of
            Success u \<Rightarrow>
              (pre @ [a, Diag opn e, Sigprocmask_block {SIGINT, SIGTERM}, Close_call (Success u),
                      Stdout (''Goodbye!'' @ nl)],
               Exited EXIT_SUCCESS)
          | Failure ce \<Rightarrow>
              (pre @ [a, Diag opn e, Sigprocmask_block {SIGINT, SIGTERM}, Close_call (Failure ce),
                      Diag ''close'' ce],
               Exited EXIT_FAILURE)))) \<and>
   (calls envb = (sg0, Success b) # es \<and>
    a' \<in> set (fst (bcm_loop (\<not> early_signal envb \<and> \<not> sg0) es)) \<and>
    io_failure a' = Some (opn', e') \<longrightarrow>
      (\<exists>pre. bcm_main envb =
         (case close_result envb of
            Success u \<Rightarrow>
              (pre @ [a', Diag opn' e', Sigprocmask_block {SIGINT, SIGTERM}, Close_call (Success u),
                      Stdout (''Goodbye!'' @ nl)],
               Exited EXIT_SUCCESS)
          | Failure ce \<Rightarrow>
              (pre @ [a', Diag opn' e', Sigprocmask_block {SIGINT, SIGTERM},
                      Close_call (Failure ce), Diag ''close'' ce],
               Exited EXIT_FAILURE)))) \<and>
   (snd (raw_main env) = Exited EXIT_SUCCESS \<longleftrightarrow>
      snd (raw_loop (\<not> early_signal env) (calls env)) = Loop_left \<and>
      (\<exists>u. close_result env = Success u)) \<and>
   (snd (bcm_main envb) = Exited EXIT_SUCCESS \<longleftrightarrow>
      (\<exists>sg0 b es. calls envb = (sg0, Success b) # es \<and>
         snd (bcm_loop (\<not> early_signal envb \<and> \<not> sg0) es) = Loop_left) \<and>
      (\<exists>u. close_result envb = Success u))"
proof (intro conjI impI)
  assume h: "a \<in> set (fst (raw_loop (\<not> early_signal env) (calls env))) \<and>
    io_failure a = Some (opn, e)"
  from raw_loop_io_failure [of a "\<not> early_signal env" "calls env" opn e] h
  obtain pre where l: "snd (raw_loop (\<not> early_signal env) (calls env)) = Loop_left"
    and t: "fst (raw_loop (\<not> early_signal env) (calls env)) = pre @ [a, Diag opn e]"
    by blast
  from raw_main_left [OF l] t
  show "\<exists>pre. raw_main env =
         (case close_result env of
            Success u \<Rightarrow>
              (pre @ [a, Diag opn e, Sigprocmask_block {SIGINT, SIGTERM}, Close_call (Success u),
                      Stdout (''Goodbye!'' @ nl)],
               Exited EXIT_SUCCESS)
          | Failure ce \<Rightarrow>
              (pre @ [a, Diag opn e, Sigprocmask_block {SIGINT, SIGTERM}, Close_call (Failure ce),
                      Diag ''close'' ce],
               Exited EXIT_FAILURE))"
    by (intro exI [of _ pre]) (simp split: sysret.splits)
next
  assume h: "calls envb = (sg0, Success b) # es \<and>
    a' \<in> set (fst (bcm_loop (\<not> early_signal envb \<and> \<not> sg0) es)) \<and>
    io_failure a' = Some (opn', e')"
  from bcm_loop_io_failure [of a' "\<not> early_signal envb \<and> \<not> sg0" es opn' e'] h
  obtain pre where l: "snd (bcm_loop (\<not> early_signal envb \<and> \<not> sg0) es) = Loop_left"
    and t: "fst (bcm_loop (\<not> early_signal envb \<and> \<not> sg0) es) = pre @ [a', Diag opn' e']"
    by blast
  from h have c: "calls envb = (sg0, Success b) # es" by simp
  from bcm_main_left [OF c l] t
  show "\<exists>pre. bcm_main envb =
         (case close_result envb of
            Success u \<Rightarrow>
              (pre @ [a', Diag opn' e', Sigprocmask_block {SIGINT, SIGTERM}, Close_call (Success u),
                      Stdout (''Goodbye!'' @ nl)],
               Exited EXIT_SUCCESS)
          | Failure ce \<Rightarrow>
              (pre @ [a', Diag opn' e', Sigprocmask_block {SIGINT, SIGTERM},
                      Close_call (Failure ce), Diag ''close'' ce],
               Exited EXIT_FAILURE))"
    by (intro exI [of _ "Write_call rx_setup_msg (Success b) # pre"]) (simp split: sysret.splits)
qed (rule raw_main_success_iff, rule bcm_main_success_iff)

text \<open>
  An instance: a read that fails in the raw session, a write that fails in the filtered echo session.
\<close>

theorem io_failure_leaves_loop_and_closes_witness:
  "Read_call (Failure 5) \<in> set (fst (raw_loop (\<not> early_signal raw_env_read_fails)
                                        (calls raw_env_read_fails))) \<and>
   io_failure (Read_call (Failure 5) :: can_frame action) = Some (''read'', 5) \<and>
   (\<exists>pre. raw_main raw_env_read_fails =
      (pre @ [Read_call (Failure 5), Diag ''read'' 5, Sigprocmask_block {SIGINT, SIGTERM},
              Close_call (Success ()), Stdout (''Goodbye!'' @ nl)],
       Exited EXIT_SUCCESS)) \<and>
   calls bcm_env_write_fails =
     (False, Success rx_setup_msg) # [(False, Success msg_123), (False, Failure 5)] \<and>
   Write_call msg_0BC (Failure 5) \<in>
     set (fst (bcm_loop (\<not> early_signal bcm_env_write_fails \<and> \<not> False)
                [(False, Success msg_123), (False, Failure 5)])) \<and>
   io_failure (Write_call msg_0BC (Failure 5)) = Some (''write'', 5) \<and>
   (\<exists>pre. bcm_main bcm_env_write_fails =
      (pre @ [Write_call msg_0BC (Failure 5), Diag ''write'' 5,
              Sigprocmask_block {SIGINT, SIGTERM}, Close_call (Success ()),
              Stdout (''Goodbye!'' @ nl)],
       Exited EXIT_SUCCESS))"
proof -
  have r1: "Read_call (Failure 5) \<in> set (fst (raw_loop (\<not> early_signal raw_env_read_fails)
                                        (calls raw_env_read_fails)))"
    by code_simp
  have r2: "io_failure (Read_call (Failure 5) :: can_frame action) = Some (''read'', 5)"
    by (simp add: io_failure_def EINTR_def)
  have r3: "close_result raw_env_read_fails = Success ()"
    by (simp add: raw_env_read_fails_def)
  have b1: "calls bcm_env_write_fails =
     (False, Success rx_setup_msg) # [(False, Success msg_123), (False, Failure 5)]"
    by (simp add: bcm_env_write_fails_def)
  have b2: "Write_call msg_0BC (Failure 5) \<in>
     set (fst (bcm_loop (\<not> early_signal bcm_env_write_fails \<and> \<not> False)
                [(False, Success msg_123), (False, Failure 5)]))"
    by code_simp
  have b3: "io_failure (Write_call msg_0BC (Failure 5)) = Some (''write'', 5)"
    by (simp add: io_failure_def EINTR_def)
  have b4: "close_result bcm_env_write_fails = Success ()"
    by (simp add: bcm_env_write_fails_def)
  from io_failure_leaves_loop_and_closes [where a = "Read_call (Failure 5)"
      and env = raw_env_read_fails and opn = "''read''" and e = 5
      and envb = bcm_env_write_fails and ?sg0.0 = False and b = rx_setup_msg
      and es = "[(False, Success msg_123), (False, Failure 5)]"
      and a' = "Write_call msg_0BC (Failure 5)" and opn' = "''write''" and e' = 5]
    r1 r2 b1 b2 b3
  show ?thesis
    by (simp add: r3 b4)
qed

text \<open>
  Claim C2 as stated fails: after a read that fails with error 5 in the raw session, and
  after a write that fails with error 5 in the filtered echo session, the process ends
  with the success status.
\<close>

theorem io_failure_exit_status_counterexample:
  "raw_main raw_env_read_fails =
     ([Read_call (Failure 5), Diag ''read'' 5,
       Sigprocmask_block {SIGINT, SIGTERM}, Close_call (Success ()),
       Stdout (''Goodbye!'' @ nl)],
      Exited EXIT_SUCCESS) \<and>
   bcm_main bcm_env_write_fails =
     ([Write_call rx_setup_msg (Success rx_setup_msg),
       Read_call (Success msg_123), Stdout (''RX:  123  [2]  10 20'' @ nl),
       Write_call msg_0BC (Failure 5), Diag ''write'' 5,
       Sigprocmask_block {SIGINT, SIGTERM}, Close_call (Success ()),
       Stdout (''Goodbye!'' @ nl)],
      Exited EXIT_SUCCESS) \<and>
   EXIT_SUCCESS \<noteq> EXIT_FAILURE \<and> 5 \<noteq> EINTR"
proof -
  have "raw_main raw_env_read_fails =
     ([Read_call (Failure 5), Diag ''read'' 5,
       Sigprocmask_block {SIGINT, SIGTERM}, Close_call (Success ()),
       Stdout (''Goodbye!'' @ nl)],
      Exited EXIT_SUCCESS)"
    by code_simp
  moreover have "bcm_main bcm_env_write_fails =
     ([Write_call rx_setup_msg (Success rx_setup_msg),
       Read_call (Success msg_123), Stdout (''RX:  123  [2]  10 20'' @ nl),
       Write_call msg_0BC (Failure 5), Diag ''write'' 5,
       Sigprocmask_block {SIGINT, SIGTERM}, Close_call (Success ()),
       Stdout (''Goodbye!'' @ nl)],
      Exited EXIT_SUCCESS)"
    by code_simp
  ultimately show ?thesis
    by (simp add: EXIT_SUCCESS_def EXIT_FAILURE_def EINTR_def)
qed

subsection \<open>C3: the raw echo example\<close>

text \<open>
  Claim C3.  In the raw session, for the input frame with identifier 0x456, length 2 and
  payload bytes 0x10, 0x20, the pass through the loop body displays the line
  \<^verbatim>\<open>456  [2]  10 20\<close> with the RX prefix, transforms the frame to identifier 0x0CC, length 2
  and payload 0x11, 0x21, and displays \<^verbatim>\<open>0CC  [2]  11 21\<close> with the TX prefix around the
  transmission of that transformed frame: the TX line stands directly next to the write,
  namely right after the write has returned successfully.  The six bytes past the length
  are arbitrary and stay as they are.
\<close>

theorem raw_echo_example:
  "raw_body ((sg1, Success \<lparr>can_id = 0x456, len = 2, data = [0x10, 0x20, b2, b3, b4, b5, b6, b7]\<rparr>)
             # (sg2, Success b) # es)
   = ([Read_call (Success \<lparr>can_id = 0x456, len = 2, data = [0x10, 0x20, b2, b3, b4, b5, b6, b7]\<rparr>),
       Stdout (''RX:  456  [2]  10 20'' @ nl),
       Write_call \<lparr>can_id = 0x0CC, len = 2, data = [0x11, 0x21, b2, b3, b4, b5, b6, b7]\<rparr> (Success b),
       Stdout (''TX:  0CC  [2]  11 21'' @ nl)],
      Continue (\<not> sg1 \<and> \<not> sg2) es)"
  by (simp add: print_456 increment_456 print_0CC)

text \<open>
  The instance with zero bytes past the length.
\<close>

theorem raw_echo_example_witness:
  "raw_body [(False, Success frame_456), (False, Success frame_0CC)] =
     ([Read_call (Success frame_456), Stdout (''RX:  456  [2]  10 20'' @ nl),
       Write_call frame_0CC (Success frame_0CC), Stdout (''TX:  0CC  [2]  11 21'' @ nl)],
      Continue True [])"
  using raw_echo_example [of False 0 0 0 0 0 0 False frame_0CC "[]"]
  by (simp add: frame_456_def frame_0CC_def)

subsection \<open>C4: the cyclic transmission task\<close>

text \<open>
  Claim C4.  In the cyclic demo the one message written is a \<^verbatim>\<open>TX_SETUP\<close> command with the
  flags \<^verbatim>\<open>SETTIMER | STARTTIMER\<close>, the interval of 1 second and 200000 microseconds and
  exactly 4 frames with the identifiers 0x0C0 to 0x0C3, each of length 3 with the payload
  bytes \<open>i, i, i\<close>.  It is written once: however the run goes, this message is the only
  one written (or waiting to be written), and the write is the only read or write of the
  run; the only later operation on the socket is its release in \<^verbatim>\<open>cleanup\<close>.
\<close>

theorem cyclic_registration:
  "tx_setup_msg =
     \<lparr>msg_head = \<lparr>opcode = TX_SETUP, flags = SETTIMER OR STARTTIMER, count = 0,
                   ival1 = \<lparr>tv_sec = 0, tv_usec = 0\<rparr>,
                   ival2 = \<lparr>tv_sec = 1, tv_usec = 200000\<rparr>,
                   msg_can_id = 0, nframes = 4\<rparr>,
      frames = [\<lparr>can_id = 0x0C0, len = 3, data = [0, 0, 0, 0, 0, 0, 0, 0]\<rparr>,
                \<lparr>can_id = 0x0C1, len = 3, data = [1, 1, 1, 0, 0, 0, 0, 0]\<rparr>,
                \<lparr>can_id = 0x0C2, len = 3, data = [2, 2, 2, 0, 0, 0, 0, 0]\<rparr>,
                \<lparr>can_id = 0x0C3, len = 3, data = [3, 3, 3, 0, 0, 0, 0, 0]\<rparr>]\<rparr> \<and>
   writes_of (fst (cyclic_main iface env)) @ pending_write (snd (cyclic_main iface env))
     = [tx_setup_msg] \<and>
   filter is_io (fst (cyclic_main iface env)) =
     (case calls env of [] \<Rightarrow> [] | (sg, r) # _ \<Rightarrow> [Write_call tx_setup_msg r])"
proof -
  have "writes_of (fst (cyclic_main iface env)) @ pending_write (snd (cyclic_main iface env))
     = [tx_setup_msg]"
    by (cases "close_result env")
       (auto simp: cyclic_main_def cleanup_simps writes_of_def pending_write_def Let_def
             split: list.splits sysret.splits)
  moreover have "filter is_io (fst (cyclic_main iface env)) =
     (case calls env of [] \<Rightarrow> [] | (sg, r) # _ \<Rightarrow> [Write_call tx_setup_msg r])"
    by (cases "close_result env")
       (auto simp: cyclic_main_def cleanup_simps Let_def split: list.splits sysret.splits)
  ultimately show ?thesis
    using tx_setup_msg_value by simp
qed

text \<open>
  An instance: the registration succeeds and a shutdown signal ends the suspension.
\<close>

theorem cyclic_registration_witness:
  "cyclic_main ''can0'' cyclic_env_shutdown =
     ([Write_call tx_setup_msg (Success tx_setup_msg), Stdout (registered_text ''can0''),
       Sigsuspend (- {SIGINT, SIGTERM}),
       Sigprocmask_block {SIGINT, SIGTERM}, Close_call (Success ()),
       Stdout (''Goodbye!'' @ nl)],
      Exited EXIT_SUCCESS) \<and>
   filter is_io (fst (cyclic_main ''can0'' cyclic_env_shutdown)) =
     [Write_call tx_setup_msg (Success tx_setup_msg)] \<and>
   writes_of (fst (cyclic_main ''can0'' cyclic_env_shutdown)) @
     pending_write (snd (cyclic_main ''can0'' cyclic_env_shutdown)) = [tx_setup_msg]"
proof -
  have "cyclic_main ''can0'' cyclic_env_shutdown =
     ([Write_call tx_setup_msg (Success tx_setup_msg), Stdout (registered_text ''can0''),
       Sigsuspend (- {SIGINT, SIGTERM}),
       Sigprocmask_block {SIGINT, SIGTERM}, Close_call (Success ()),
       Stdout (''Goodbye!'' @ nl)],
      Exited EXIT_SUCCESS)"
    by (simp add: cyclic_main_def cyclic_env_shutdown_def cleanup_simps suspend_mask)
  moreover have "calls cyclic_env_shutdown = [(False, Success tx_setup_msg), (True, Failure EINTR)]"
    by (simp add: cyclic_env_shutdown_def)
  ultimately show ?thesis
    using cyclic_registration [of "''can0''" cyclic_env_shutdown] by simp
qed

subsection \<open>C5: the pattern of the rendered text\<close>

text \<open>
  Claim C5, as amended.  For every frame with \<open>len \<le> 8\<close>, \<^verbatim>\<open>print_can_frame\<close> writes the
  identifier in at least three uppercase hexadecimal digits, two spaces, an opening
  bracket, the decimal length, a closing bracket, one space, and then exactly \<open>len\<close>
  groups of a space and a two-digit uppercase hexadecimal byte value, and nothing else.
  The text is a function of the frame.
\<close>

theorem print_can_frame_pattern:
  "wf_frame f \<Longrightarrow> unat (len f) \<le> 8 \<Longrightarrow>
   \<exists>s. print_can_frame f = Inr s \<and>
       s = fmt_03X (can_id f) @ ''  ['' @ fmt_u (len f) @ ''] '' @
           concat (map (\<lambda>b. '' '' @ fmt_02X b) (take (unat (len f)) (data f))) \<and>
       printed_render_pattern (unat (len f)) s"
proof -
  assume "wf_frame f" and "unat (len f) \<le> 8"
  then have inb: "unat (len f) \<le> length (data f)"
    by (simp add: wf_frame_def CAN_MAX_DLEN_def)
  from print_can_frame_in_bounds [OF inb] printed_pattern_holds [OF inb]
  show ?thesis by blast
qed

text \<open>
  An instance: the frame of the raw echo example.
\<close>

theorem print_can_frame_pattern_witness:
  "wf_frame frame_456 \<and> unat (len frame_456) \<le> 8 \<and>
   (\<exists>s. print_can_frame frame_456 = Inr s \<and>
       s = fmt_03X (can_id frame_456) @ ''  ['' @ fmt_u (len frame_456) @ ''] '' @
           concat (map (\<lambda>b. '' '' @ fmt_02X b) (take (unat (len frame_456)) (data frame_456))) \<and>
       printed_render_pattern (unat (len frame_456)) s)"
proof -
  have h1: "wf_frame frame_456" by (simp add: wf_frame_def CAN_MAX_DLEN_def frame_456_def)
  have h2: "unat (len frame_456) \<le> 8" by (simp add: frame_456_def)
  from print_can_frame_pattern [OF h1 h2] h1 h2 show ?thesis by blast
qed

text \<open>
  Claim C5 as stated fails: the text rendered for the frame with identifier 0x456, length
  2 and payload 0x10, 0x20 has two spaces between the closing bracket and the first byte
  value, so it is not of the pattern in the words of the specification.
\<close>

theorem spec_render_pattern_counterexample:
  "wf_frame frame_456 \<and> unat (len frame_456) \<le> 8 \<and>
   print_can_frame frame_456 = Inr ''456  [2]  10 20'' \<and>
   \<not> spec_render_pattern (unat (len frame_456)) ''456  [2]  10 20''"
proof -
  have "wf_frame frame_456" by (simp add: wf_frame_def CAN_MAX_DLEN_def frame_456_def)
  moreover have "unat (len frame_456) \<le> 8" by (simp add: frame_456_def)
  moreover have "print_can_frame frame_456 = Inr ''456  [2]  10 20''" by code_simp
  moreover have "\<not> spec_render_pattern (unat (len frame_456)) ''456  [2]  10 20''" by code_simp
  ultimately show ?thesis by blast
qed

subsection \<open>C6: the increment wraps around\<close>

text \<open>
  Claim C6.  For every frame with \<open>len \<le> 8\<close> the increment loop returns a frame (it has no
  error case): identifier, length and the bytes from index \<open>len\<close> on are unchanged, and each
  of the first \<open>len\<close> bytes is increased by 1 modulo 256.  Applied 256 times in a row it
  yields a frame whose first \<open>len\<close> payload bytes are those of the frame it started from.
\<close>

theorem increment_payload_wraps:
  "wf_frame f \<Longrightarrow> unat (len f) \<le> 8 \<Longrightarrow>
   (\<exists>g. increment_payload f = Inr g \<and> can_id g = can_id f \<and> len g = len f \<and>
        length (data g) = length (data f) \<and>
        (\<forall>j<unat (len f). data g ! j = data f ! j + 1 \<and>
                          unat (data g ! j) = (unat (data f ! j) + 1) mod 256) \<and>
        (\<forall>j. unat (len f) \<le> j \<and> j < 8 \<longrightarrow> data g ! j = data f ! j)) \<and>
   (\<exists>h. increment_times 256 f = Inr h \<and>
        take (unat (len f)) (data h) = take (unat (len f)) (data f))"
  by (simp add: wf_frame_def CAN_MAX_DLEN_def increment_payload_in_bounds
        increment_times_256 bump_def unat_word_ariths)

text \<open>
  An instance with the bytes 0xFF, 0x00 and 0x7F in the payload.
\<close>

theorem increment_payload_wraps_witness:
  "wf_frame frame_wrap \<and> unat (len frame_wrap) \<le> 8 \<and>
   increment_payload frame_wrap =
     Inr \<lparr>can_id = 0x0CC, len = 3, data = [0x00, 0x01, 0x80, 0xAA, 0, 0, 0, 0]\<rparr> \<and>
   (\<exists>g. increment_payload frame_wrap = Inr g \<and> can_id g = can_id frame_wrap \<and>
        len g = len frame_wrap \<and> length (data g) = length (data frame_wrap) \<and>
        (\<forall>j<unat (len frame_wrap). data g ! j = data frame_wrap ! j + 1 \<and>
                          unat (data g ! j) = (unat (data frame_wrap ! j) + 1) mod 256) \<and>
        (\<forall>j. unat (len frame_wrap) \<le> j \<and> j < 8 \<longrightarrow> data g ! j = data frame_wrap ! j)) \<and>
   (\<exists>h. increment_times 256 frame_wrap = Inr h \<and>
        take (unat (len frame_wrap)) (data h) = take (unat (len frame_wrap)) (data frame_wrap))"
proof -
  have h1: "wf_frame frame_wrap" by (simp add: wf_frame_def CAN_MAX_DLEN_def frame_wrap_def)
  have h2: "unat (len frame_wrap) \<le> 8" by (simp add: frame_wrap_def)
  have c: "increment_payload frame_wrap =
     Inr \<lparr>can_id = 0x0CC, len = 3, data = [0x00, 0x01, 0x80, 0xAA, 0, 0, 0, 0]\<rparr>"
    by code_simp
  from increment_payload_wraps [OF h1 h2] h1 h2 c show ?thesis by blast
qed

subsection \<open>C7: the socket is closed exactly once\<close>

text \<open>
  Claim C7.  Whenever the session loop is left, by the shutdown flag or by a read or
  write error, the run has exactly one call of \<^verbatim>\<open>close\<close>, and the call that comes directly
  before it blocks SIGINT and SIGTERM.  This holds for the raw session and for the
  filtered echo session.
\<close>

theorem close_exactly_once:
  "(snd (raw_loop (\<not> early_signal env) (calls env)) = Loop_left \<longrightarrow>
      length (filter is_close (fst (raw_main env))) = 1 \<and>
      (\<exists>pre post. fst (raw_main env) =
           pre @ [Sigprocmask_block {SIGINT, SIGTERM}, Close_call (close_result env)] @ post \<and>
         filter is_close pre = [] \<and> filter is_close post = [])) \<and>
   (calls envb = (sg0, Success b) # es \<and>
    snd (bcm_loop (\<not> early_signal envb \<and> \<not> sg0) es) = Loop_left \<longrightarrow>
      length (filter is_close (fst (bcm_main envb))) = 1 \<and>
      (\<exists>pre post. fst (bcm_main envb) =
           pre @ [Sigprocmask_block {SIGINT, SIGTERM}, Close_call (close_result envb)] @ post \<and>
         filter is_close pre = [] \<and> filter is_close post = []))"
proof (intro conjI impI)
  assume l: "snd (raw_loop (\<not> early_signal env) (calls env)) = Loop_left"
  note m = raw_main_left [OF l]
  show "length (filter is_close (fst (raw_main env))) = 1"
    by (simp add: m raw_loop_filter_close split: sysret.splits)
  show "\<exists>pre post. fst (raw_main env) =
           pre @ [Sigprocmask_block {SIGINT, SIGTERM}, Close_call (close_result env)] @ post \<and>
         filter is_close pre = [] \<and> filter is_close post = []"
  proof (cases "close_result env")
    case (Success u)
    show ?thesis
      by (intro exI [of _ "fst (raw_loop (\<not> early_signal env) (calls env))"]
            exI [of _ "[Stdout (''Goodbye!'' @ nl)]"])
         (simp add: m Success raw_loop_filter_close)
  next
    case (Failure ce)
    show ?thesis
      by (intro exI [of _ "fst (raw_loop (\<not> early_signal env) (calls env))"]
            exI [of _ "[Diag ''close'' ce]"])
         (simp add: m Failure raw_loop_filter_close)
  qed
next
  assume h: "calls envb = (sg0, Success b) # es \<and>
    snd (bcm_loop (\<not> early_signal envb \<and> \<not> sg0) es) = Loop_left"
  then have c: "calls envb = (sg0, Success b) # es"
    and l: "snd (bcm_loop (\<not> early_signal envb \<and> \<not> sg0) es) = Loop_left" by simp_all
  note m = bcm_main_left [OF c l]
  show "length (filter is_close (fst (bcm_main envb))) = 1"
    by (simp add: m bcm_loop_filter_close split: sysret.splits)
  show "\<exists>pre post. fst (bcm_main envb) =
           pre @ [Sigprocmask_block {SIGINT, SIGTERM}, Close_call (close_result envb)] @ post \<and>
         filter is_close pre = [] \<and> filter is_close post = []"
  proof (cases "close_result envb")
    case (Success u)
    show ?thesis
      by (intro exI [of _ "Write_call rx_setup_msg (Success b) #
                fst (bcm_loop (\<not> early_signal envb \<and> \<not> sg0) es)"]
            exI [of _ "[Stdout (''Goodbye!'' @ nl)]"])
         (simp add: m Success bcm_loop_filter_close)
  next
    case (Failure ce)
    show ?thesis
      by (intro exI [of _ "Write_call rx_setup_msg (Success b) #
                fst (bcm_loop (\<not> early_signal envb \<and> \<not> sg0) es)"]
            exI [of _ "[Diag ''close'' ce]"])
         (simp add: m Failure bcm_loop_filter_close)
  qed
qed

text \<open>
  An instance: a raw session that ends by a read error, a filtered echo session that ends by a signal.
\<close>

theorem close_exactly_once_witness:
  "snd (raw_loop (\<not> early_signal raw_env_read_fails) (calls raw_env_read_fails)) = Loop_left \<and>
   length (filter is_close (fst (raw_main raw_env_read_fails))) = 1 \<and>
   (\<exists>pre post. fst (raw_main raw_env_read_fails) =
        pre @ [Sigprocmask_block {SIGINT, SIGTERM}, Close_call (close_result raw_env_read_fails)] @ post \<and>
      filter is_close pre = [] \<and> filter is_close post = []) \<and>
   calls bcm_env_eintr = (False, Success rx_setup_msg) #
      [(False, Success msg_123), (True, Failure EINTR)] \<and>
   snd (bcm_loop (\<not> early_signal bcm_env_eintr \<and> \<not> False)
          [(False, Success msg_123), (True, Failure EINTR)]) = Loop_left \<and>
   length (filter is_close (fst (bcm_main bcm_env_eintr))) = 1 \<and>
   (\<exists>pre post. fst (bcm_main bcm_env_eintr) =
        pre @ [Sigprocmask_block {SIGINT, SIGTERM}, Close_call (close_result bcm_env_eintr)] @ post \<and>
      filter is_close pre = [] \<and> filter is_close post = [])"
proof -
  have r: "snd (raw_loop (\<not> early_signal raw_env_read_fails) (calls raw_env_read_fails)) = Loop_left"
    by code_simp
  have c: "calls bcm_env_eintr = (False, Success rx_setup_msg) #
      [(False, Success msg_123), (True, Failure EINTR)]"
    by (simp add: bcm_env_eintr_def)
  have b: "snd (bcm_loop (\<not> early_signal bcm_env_eintr \<and> \<not> False)
          [(False, Success msg_123), (True, Failure EINTR)]) = Loop_left"
    by code_simp
  from close_exactly_once [where env = raw_env_read_fails and envb = bcm_env_eintr
      and ?sg0.0 = False and b = rx_setup_msg
      and es = "[(False, Success msg_123), (True, Failure EINTR)]"] r c b
  show ?thesis by blast
qed

subsection \<open>C8: a close that fails\<close>

text \<open>
  Claim C8, as amended.  If releasing the socket fails, \<^verbatim>\<open>cleanup\<close> produces a diagnostic
  with the name \<^verbatim>\<open>close\<close> and the error number, and the process ends there with the failure
  status: the diagnostic is the last action of the run, and the farewell line and the
  return of the success status do not happen.  This holds for all three programs.
\<close>

theorem close_failure_ends_process:
  "(close_result env = Failure e \<and>
    snd (raw_loop (\<not> early_signal env) (calls env)) = Loop_left \<longrightarrow>
      raw_main env =
        (fst (raw_loop (\<not> early_signal env) (calls env)) @
           [Sigprocmask_block {SIGINT, SIGTERM}, Close_call (Failure e), Diag ''close'' e],
         Exited EXIT_FAILURE)) \<and>
   (close_result envb = Failure e \<and> calls envb = (sg0, Success b) # es \<and>
    snd (bcm_loop (\<not> early_signal envb \<and> \<not> sg0) es) = Loop_left \<longrightarrow>
      bcm_main envb =
        (Write_call rx_setup_msg (Success b) # fst (bcm_loop (\<not> early_signal envb \<and> \<not> sg0) es) @
           [Sigprocmask_block {SIGINT, SIGTERM}, Close_call (Failure e), Diag ''close'' e],
         Exited EXIT_FAILURE)) \<and>
   (close_result envc = Failure e \<and> calls envc = (sg0', Success b') # delivered # es' \<longrightarrow>
      cyclic_main iface envc =
        ([Write_call tx_setup_msg (Success b'), Stdout (registered_text iface),
          Sigsuspend (- {SIGINT, SIGTERM}),
          Sigprocmask_block {SIGINT, SIGTERM}, Close_call (Failure e), Diag ''close'' e],
         Exited EXIT_FAILURE))"
proof (intro conjI impI)
  assume "close_result env = Failure e \<and>
    snd (raw_loop (\<not> early_signal env) (calls env)) = Loop_left"
  then show "raw_main env =
        (fst (raw_loop (\<not> early_signal env) (calls env)) @
           [Sigprocmask_block {SIGINT, SIGTERM}, Close_call (Failure e), Diag ''close'' e],
         Exited EXIT_FAILURE)"
    using raw_main_left [of env] by simp
next
  assume "close_result envb = Failure e \<and> calls envb = (sg0, Success b) # es \<and>
    snd (bcm_loop (\<not> early_signal envb \<and> \<not> sg0) es) = Loop_left"
  then show "bcm_main envb =
        (Write_call rx_setup_msg (Success b) # fst (bcm_loop (\<not> early_signal envb \<and> \<not> sg0) es) @
           [Sigprocmask_block {SIGINT, SIGTERM}, Close_call (Failure e), Diag ''close'' e],
         Exited EXIT_FAILURE)"
    using bcm_main_left [of envb sg0 b es] by simp
next
  assume "close_result envc = Failure e \<and> calls envc = (sg0', Success b') # delivered # es'"
  then show "cyclic_main iface envc =
        ([Write_call tx_setup_msg (Success b'), Stdout (registered_text iface),
          Sigsuspend (- {SIGINT, SIGTERM}),
          Sigprocmask_block {SIGINT, SIGTERM}, Close_call (Failure e), Diag ''close'' e],
         Exited EXIT_FAILURE)"
    by (simp add: cyclic_main_def cleanup_simps suspend_mask)
qed

text \<open>
  An instance for each of the three programs.
\<close>

theorem close_failure_ends_process_witness:
  "close_result raw_env_close_fails = Failure 5 \<and>
   snd (raw_loop (\<not> early_signal raw_env_close_fails) (calls raw_env_close_fails)) = Loop_left \<and>
   raw_main raw_env_close_fails =
     (fst (raw_loop (\<not> early_signal raw_env_close_fails) (calls raw_env_close_fails)) @
        [Sigprocmask_block {SIGINT, SIGTERM}, Close_call (Failure 5), Diag ''close'' 5],
      Exited EXIT_FAILURE) \<and>
   close_result (bcm_env_eintr\<lparr>close_result := Failure 5\<rparr>) = Failure 5 \<and>
   calls (bcm_env_eintr\<lparr>close_result := Failure 5\<rparr>) =
     (False, Success rx_setup_msg) # [(False, Success msg_123), (True, Failure EINTR)] \<and>
   snd (bcm_loop (\<not> early_signal (bcm_env_eintr\<lparr>close_result := Failure 5\<rparr>) \<and> \<not> False)
          [(False, Success msg_123), (True, Failure EINTR)]) = Loop_left \<and>
   bcm_main (bcm_env_eintr\<lparr>close_result := Failure 5\<rparr>) =
     (Write_call rx_setup_msg (Success rx_setup_msg) #
        fst (bcm_loop (\<not> early_signal (bcm_env_eintr\<lparr>close_result := Failure 5\<rparr>) \<and> \<not> False)
               [(False, Success msg_123), (True, Failure EINTR)]) @
        [Sigprocmask_block {SIGINT, SIGTERM}, Close_call (Failure 5), Diag ''close'' 5],
      Exited EXIT_FAILURE) \<and>
   close_result cyclic_env_close_fails = Failure 5 \<and>
   calls cyclic_env_close_fails = (False, Success tx_setup_msg) # (True, Failure EINTR) # [] \<and>
   cyclic_main ''can0'' cyclic_env_close_fails =
     ([Write_call tx_setup_msg (Success tx_setup_msg), Stdout (registered_text ''can0''),
       Sigsuspend (- {SIGINT, SIGTERM}),
       Sigprocmask_block {SIGINT, SIGTERM}, Close_call (Failure 5), Diag ''close'' 5],
      Exited EXIT_FAILURE)"
proof -
  have r1: "close_result raw_env_close_fails = Failure 5"
    by (simp add: raw_env_close_fails_def)
  have r2: "snd (raw_loop (\<not> early_signal raw_env_close_fails) (calls raw_env_close_fails)) = Loop_left"
    by (simp add: raw_env_close_fails_def raw_loop_stop)
  have b1: "close_result (bcm_env_eintr\<lparr>close_result := Failure 5\<rparr>) = Failure 5"
    by simp
  have b2: "calls (bcm_env_eintr\<lparr>close_result := Failure 5\<rparr>) =
     (False, Success rx_setup_msg) # [(False, Success msg_123), (True, Failure EINTR)]"
    by (simp add: bcm_env_eintr_def)
  have b3: "snd (bcm_loop (\<not> early_signal (bcm_env_eintr\<lparr>close_result := Failure 5\<rparr>) \<and> \<not> False)
          [(False, Success msg_123), (True, Failure EINTR)]) = Loop_left"
    by code_simp
  have c1: "close_result cyclic_env_close_fails = Failure 5"
    by (simp add: cyclic_env_close_fails_def)
  have c2: "calls cyclic_env_close_fails = (False, Success tx_setup_msg) # (True, Failure EINTR) # []"
    by (simp add: cyclic_env_close_fails_def)
  from close_failure_ends_process [where env = raw_env_close_fails and e = 5
      and envb = "bcm_env_eintr\<lparr>close_result := Failure 5\<rparr>" and ?sg0.0 = False
      and b = rx_setup_msg and es = "[(False, Success msg_123), (True, Failure EINTR)]"
      and envc = cyclic_env_close_fails and sg0' = False and b' = tx_setup_msg
      and delivered = "(True, Failure EINTR)" and es' = "[]" and iface = "''can0''"]
    r1 r2 b1 b2 b3 c1 c2
  show ?thesis by blast
qed

text \<open>
  Claim C8 as stated fails: with a close that fails with error 5 the raw session ends
  with the failure status right after the diagnostic, while with a close that succeeds
  the farewell line follows and the status is success.
\<close>

theorem close_failure_counterexample:
  "raw_main raw_env_close_fails =
     ([Sigprocmask_block {SIGINT, SIGTERM}, Close_call (Failure 5), Diag ''close'' 5],
      Exited EXIT_FAILURE) \<and>
   raw_main (raw_env_close_fails\<lparr>close_result := Success ()\<rparr>) =
     ([Sigprocmask_block {SIGINT, SIGTERM}, Close_call (Success ()), Stdout (''Goodbye!'' @ nl)],
      Exited EXIT_SUCCESS) \<and>
   EXIT_FAILURE \<noteq> EXIT_SUCCESS"
proof -
  have "raw_main raw_env_close_fails =
     ([Sigprocmask_block {SIGINT, SIGTERM}, Close_call (Failure 5), Diag ''close'' 5],
      Exited EXIT_FAILURE)"
    by code_simp
  moreover have "raw_main (raw_env_close_fails\<lparr>close_result := Success ()\<rparr>) =
     ([Sigprocmask_block {SIGINT, SIGTERM}, Close_call (Success ()), Stdout (''Goodbye!'' @ nl)],
      Exited EXIT_SUCCESS)"
    by code_simp
  ultimately show ?thesis
    by (simp add: EXIT_SUCCESS_def EXIT_FAILURE_def)
qed

subsection \<open>C9: the commands of the filtered echo session\<close>

text \<open>
  Claim C9.  In the filtered echo session the first message written, before the loop,
  is the \<^verbatim>\<open>RX_SETUP\<close> command with the identifier 0x123, and it is the first action of the
  run.  Every message written after it (or waiting to be written) is a \<^verbatim>\<open>TX_SEND\<close> command
  with frame count 1 and identifier field zero whose embedded frame carries the transmit
  identifier 0x0BC; so there is exactly one \<^verbatim>\<open>RX_SETUP\<close> command.
\<close>

theorem bcm_commands:
  "(\<exists>rest. writes_of (fst (bcm_main env)) @ pending_write (snd (bcm_main env)) = rx_setup_msg # rest \<and>
           list_all is_tx_send rest) \<and>
   (fst (bcm_main env) = [] \<or> (\<exists>r rest. fst (bcm_main env) = Write_call rx_setup_msg r # rest)) \<and>
   opcode (msg_head rx_setup_msg) = RX_SETUP \<and> msg_can_id (msg_head rx_setup_msg) = 0x123 \<and>
   RX_SETUP \<noteq> TX_SEND \<and> MSGID_bcm = 0x0BC"
proof -
  have w: "\<exists>rest. writes_of (fst (bcm_main env)) @ pending_write (snd (bcm_main env)) =
              rx_setup_msg # rest \<and> list_all is_tx_send rest"
  proof (cases "calls env")
    case Nil
    then show ?thesis by (simp add: bcm_main_def writes_of_def pending_write_def)
  next
    case (Cons ev es)
    obtain sg0 r where ev: "ev = (sg0, r)" by (cases ev)
    show ?thesis
    proof (cases r)
      case (Failure e)
      with Cons ev show ?thesis by (simp add: bcm_main_def writes_of_def pending_write_def)
    next
      case (Success b)
      obtain t fin where l: "bcm_loop (\<not> early_signal env \<and> \<not> sg0) es = (t, fin)"
        by (cases "bcm_loop (\<not> early_signal env \<and> \<not> sg0) es")
      from bcm_loop_writes [of "\<not> early_signal env \<and> \<not> sg0" es] l
      have tw: "list_all is_tx_send (writes_of t)"
        and fw: "case fin of Loop_blocked (Pending_write m) \<Rightarrow> is_tx_send m | _ \<Rightarrow> True"
        by simp_all
      show ?thesis
      proof (cases fin)
        case Loop_left
        with l have "snd (bcm_loop (\<not> early_signal env \<and> \<not> sg0) es) = Loop_left" by simp
        from bcm_main_left [OF _ this, of b] Cons ev Success l tw show ?thesis
          by (cases "close_result env")
             (simp_all add: writes_of_append pending_write_def, simp_all add: writes_of_def)
      next
        case (Loop_blocked p)
        with Cons ev Success l tw fw show ?thesis
          by (cases p) (auto simp: bcm_main_def writes_of_append pending_write_def writes_of_def)
      next
        case Loop_faulted
        with Cons ev Success l tw show ?thesis
          by (auto simp: bcm_main_def writes_of_append pending_write_def writes_of_def)
      qed
    qed
  qed
  have f: "fst (bcm_main env) = [] \<or> (\<exists>r rest. fst (bcm_main env) = Write_call rx_setup_msg r # rest)"
    by (cases "bcm_loop (\<not> early_signal env \<and> \<not> fst (hd (calls env))) (tl (calls env))";
        cases "cleanup (close_result env) :: can_msg action list \<times> int option")
       (auto simp: bcm_main_def Let_def split: list.splits sysret.splits loop_end.splits option.splits)
  show ?thesis
    using w f
    by (simp add: rx_setup_msg_value RX_SETUP_def TX_SEND_def MSGID_bcm_def)
qed

text \<open>
  An instance: one frame is received and echoed.
\<close>

theorem bcm_commands_witness:
  "writes_of (fst (bcm_main bcm_env_write_fails)) @ pending_write (snd (bcm_main bcm_env_write_fails))
     = [rx_setup_msg, msg_0BC] \<and>
   is_tx_send msg_0BC \<and>
   (\<exists>rest. writes_of (fst (bcm_main bcm_env_write_fails)) @
             pending_write (snd (bcm_main bcm_env_write_fails)) = rx_setup_msg # rest \<and>
           list_all is_tx_send rest)"
proof -
  have "writes_of (fst (bcm_main bcm_env_write_fails)) @
      pending_write (snd (bcm_main bcm_env_write_fails)) = [rx_setup_msg, msg_0BC]"
    by code_simp
  moreover have "is_tx_send msg_0BC" by code_simp
  ultimately show ?thesis
    using bcm_commands [of bcm_env_write_fails] by blast
qed

subsection \<open>C10: accesses to the payload buffer\<close>

text \<open>
  Claim C10.  \<^verbatim>\<open>print_can_frame\<close> and the increment loop read and write \<^verbatim>\<open>data[i]\<close> for
  \<open>i < len\<close> only, and neither checks \<open>len\<close> against the size of the buffer: on the 8-byte
  buffer an access out of bounds happens exactly when \<open>len > 8\<close>.  Under \<open>len \<le> 8\<close> the
  fault is unreachable, the rendered text depends on the first \<open>len\<close> bytes only, and the
  increment leaves the bytes from index \<open>len\<close> on as they are.
\<close>

theorem payload_access_bounds:
  "wf_frame f \<Longrightarrow>
   (print_can_frame f = Inl Out_of_bounds \<longleftrightarrow> 8 < unat (len f)) \<and>
   (increment_payload f = Inl Out_of_bounds \<longleftrightarrow> 8 < unat (len f)) \<and>
   (unat (len f) \<le> 8 \<longrightarrow>
      (\<forall>g. wf_frame g \<and> can_id g = can_id f \<and> len g = len f \<and>
           take (unat (len f)) (data g) = take (unat (len f)) (data f) \<longrightarrow>
           print_can_frame g = print_can_frame f) \<and>
      (\<forall>g. increment_payload f = Inr g \<longrightarrow>
           (\<forall>j. unat (len f) \<le> j \<and> j < 8 \<longrightarrow> data g ! j = data f ! j)))"
proof -
  assume wf: "wf_frame f"
  then have l: "length (data f) = 8" by (simp add: wf_frame_def CAN_MAX_DLEN_def)
  show ?thesis
  proof (cases "unat (len f) \<le> 8")
    case True
    then have inb: "unat (len f) \<le> length (data f)" using l by simp
    have "print_can_frame g = print_can_frame f"
      if "wf_frame g" "can_id g = can_id f" "len g = len f"
         "take (unat (len f)) (data g) = take (unat (len f)) (data f)" for g
    proof -
      have "unat (len g) \<le> length (data g)"
        using that True by (simp add: wf_frame_def CAN_MAX_DLEN_def)
      then show ?thesis
        using that inb by (simp add: print_can_frame_in_bounds)
    qed
    then show ?thesis
      using True inb l
      by (auto simp: print_can_frame_in_bounds increment_payload_in_bounds bump_def)
  next
    case False
    then have "length (data f) < unat (len f)" using l by simp
    then show ?thesis
      using False
      by (simp add: print_can_frame_out_of_bounds increment_payload_out_of_bounds)
  qed
qed

text \<open>
  Instances: a frame with length 9 faults in both loops, the frame of the raw echo example does not.
\<close>

theorem payload_access_bounds_witness:
  "wf_frame frame_len9 \<and> print_can_frame frame_len9 = Inl Out_of_bounds \<and>
   increment_payload frame_len9 = Inl Out_of_bounds \<and>
   wf_frame frame_456 \<and> print_can_frame frame_456 \<noteq> Inl Out_of_bounds \<and>
   increment_payload frame_456 \<noteq> Inl Out_of_bounds \<and>
   print_can_frame (frame_456\<lparr>data := [0x10, 0x20, 9, 9, 9, 9, 9, 9]\<rparr>) = print_can_frame frame_456"
proof -
  have h9: "wf_frame frame_len9" by (simp add: wf_frame_def CAN_MAX_DLEN_def frame_len9_def)
  have h2: "wf_frame frame_456" by (simp add: wf_frame_def CAN_MAX_DLEN_def frame_456_def)
  have g: "wf_frame (frame_456\<lparr>data := [0x10, 0x20, 9, 9, 9, 9, 9, 9]\<rparr>)"
    by (simp add: wf_frame_def CAN_MAX_DLEN_def)
  from payload_access_bounds [OF h9] have a: "print_can_frame frame_len9 = Inl Out_of_bounds"
    "increment_payload frame_len9 = Inl Out_of_bounds"
    by (simp_all add: frame_len9_def)
  from payload_access_bounds [OF h2] g
  have b: "print_can_frame frame_456 \<noteq> Inl Out_of_bounds"
    "increment_payload frame_456 \<noteq> Inl Out_of_bounds"
    "print_can_frame (frame_456\<lparr>data := [0x10, 0x20, 9, 9, 9, 9, 9, 9]\<rparr>) = print_can_frame frame_456"
    by (simp_all add: frame_456_def)
  from h9 h2 a b show ?thesis by blast
qed

end
